theory Spec2Isabelle
  imports Complex_Main "HOL-Library.Sublist"
begin

section \<open>Availability matching (request page)\<close>

text \<open>
  A JavaScript \<open>Date\<close> is modelled by its time value, the integer number of
  milliseconds since the epoch that \<open>getTime()\<close> returns.  Only valid dates are
  modelled: the windows come from timestamp columns of the record store.  A duration in
  minutes is the exact quotient \<open>ms / 60000\<close>, a rational number; the comparisons
  \<open>ms > 0\<close>, \<open>mins >= 30\<close> and the rounding \<open>Math.round\<close> of the source give the
  same answers on the exact quotient as on its nearest double, since the nearest
  threshold is at least \<open>1 / 60000\<close> away from a quotient that is not on it.
\<close>

type_synonym Date = int

definition overlapMinutes :: "Date \<Rightarrow> Date \<Rightarrow> Date \<Rightarrow> Date \<Rightarrow> rat" where
  "overlapMinutes aStart aEnd bStart bEnd =
     (let start = max aStart bStart;
          end' = min aEnd bEnd;
          ms = end' - start
      in if ms > 0 then of_int ms / 60000 else 0)"

text \<open>\<open>Math.round\<close> rounds to the nearest integer, a half towards plus infinity.\<close>

definition Math_round :: "rat \<Rightarrow> int" where
  "Math_round x = \<lfloor>x + 1 / 2\<rfloor>"

text \<open>
  \<open>WindowRow\<close>: the fields of an availability window that the overlap computation
  reads (the field names carry the prefix \<open>w_\<close>, since other rows have fields of
  the same names); \<open>w_start_ts\<close> and \<open>w_end_ts\<close> hold the instant that the stored timestamp string
  denotes, which is what \<open>new Date(r.start_ts)\<close> yields.
\<close>

record WindowRow =
  w_user_key :: string
  w_user_name :: "string option"
  w_start_ts :: Date
  w_end_ts :: Date

record Window =
  start :: Date
  end' :: Date

record Overlap = Window +
  minutes :: int

definition toWindow :: "WindowRow \<Rightarrow> Window" where
  "toWindow r = \<lparr>start = w_start_ts r, end' = w_end_ts r\<rparr>"

text \<open>The body of the inner loop: what one pair \<open>(a, b)\<close> pushes onto \<open>out\<close>.\<close>

definition pushPair :: "Window \<Rightarrow> Window \<Rightarrow> Overlap list" where
  "pushPair a b =
     (let mins = overlapMinutes (start a) (end' a) (start b) (end' b)
      in if mins \<ge> 30
         then [\<lparr>start = max (start a) (start b), end' = min (end' a) (end' b),
                minutes = Math_round mins\<rparr>]
         else [])"

text \<open>
  The two nested loops \<open>for i\<close>, \<open>for j = i + 1\<close>: the head of the list is
  \<open>windows[i]\<close>, paired with every later window in order, before the outer loop moves on.
\<close>

fun allPairs :: "Window list \<Rightarrow> Overlap list" where
  "allPairs [] = []"
| "allPairs (a # ws) = concat (map (pushPair a) ws) @ allPairs ws"

text \<open>
  The de-duplication key is the string \<open>start.toISOString() + "_" + end.toISOString()\<close>.
  An ISO string renders the time value of a valid date to the millisecond and contains no
  underscore, so two keys are equal exactly when the two pairs of time values are; the
  key is modelled by that pair.
\<close>

definition dedupeKey :: "Overlap \<Rightarrow> Date \<times> Date" where
  "dedupeKey o' = (start o', end' o')"

text \<open>The filter with the mutable set \<open>seen\<close>: the first entry of each key is kept.\<close>

fun dedupe :: "(Date \<times> Date) set \<Rightarrow> Overlap list \<Rightarrow> Overlap list" where
  "dedupe seen [] = []"
| "dedupe seen (x # xs) =
     (if dedupeKey x \<in> seen then dedupe seen xs
      else x # dedupe (insert (dedupeKey x) seen) xs)"

text \<open>
  \<open>Array.prototype.sort\<close> with the comparator \<open>a.start - b.start\<close> is a stable sort by
  start time; \<open>slice(0, 8)\<close> keeps the first eight entries.
\<close>

definition deduped :: "WindowRow list \<Rightarrow> Overlap list" where
  "deduped rows = dedupe {} (allPairs (map toWindow rows))"

definition overlaps :: "WindowRow list \<Rightarrow> Overlap list" where
  "overlaps rows = take 8 (sort_key start (deduped rows))"


section \<open>Strings\<close>

text \<open>
  Strings are lists of 8-bit characters: a character stands for the code unit of the same
  number, so the strings modelled are those of code units below 256.  \<open>trim\<close> removes
  white space and line terminators from both ends; below 256 these are the code units 9
  to 13, the space 32 and the no-break space 160.  \<open>toLowerCase\<close> maps the letters
  \<open>A\<close> to \<open>Z\<close> and the capital letters 192 to 222 (but not the multiplication sign
  215) to the lower-case letter 32 code units higher.  \<open>includes\<close> tests for a
  contiguous substring.  An empty string is falsy, so \<open>!name.trim()\<close> is
  \<open>trim name = []\<close> and \<open>name.trim() || ""\<close> is \<open>trim name\<close>.
\<close>

definition isWhiteSpace :: "char \<Rightarrow> bool" where
  "isWhiteSpace c = (of_char c \<in> {9, 10, 11, 12, 13, 32, 160 :: nat})"

definition trim :: "string \<Rightarrow> string" where
  "trim s = rev (dropWhile isWhiteSpace (rev (dropWhile isWhiteSpace s)))"

definition toLowerCase :: "string \<Rightarrow> string" where
  "toLowerCase s =
     map (\<lambda>c. if (65 \<le> (of_char c :: nat) \<and> (of_char c :: nat) \<le> 90) \<or>
                 (192 \<le> (of_char c :: nat) \<and> (of_char c :: nat) \<le> 222 \<and>
                  (of_char c :: nat) \<noteq> 215)
              then char_of (of_char c + 32 :: nat) else c) s"

definition includes' :: "string \<Rightarrow> string \<Rightarrow> bool" where
  "includes' s sub = sublist sub s"

text \<open>\<open>x || ""\<close> on a nullable string: \<open>null\<close> and the empty string both give \<open>""\<close>.\<close>

definition orEmpty :: "string option \<Rightarrow> string" where
  "orEmpty x = (case x of None \<Rightarrow> [] | Some s \<Rightarrow> s)"

section \<open>Rows of the record store\<close>

text \<open>
  The row types of the pages.  Field names carry a prefix per row type (\<open>p_\<close>, \<open>r_\<close>,
  \<open>c_\<close>, \<open>h_\<close>), since the source reuses \<open>id\<close>, \<open>plan_id\<close>, \<open>slug\<close> and others
  across types.  Identifiers (\<open>id\<close>, \<open>plan_id\<close>, \<open>request_id\<close>) are opaque and are
  modelled by natural numbers; timestamps are time values as above.  \<open>created_at\<close> is
  read by the source only to order query results, newest first: it is modelled by the
  position of a row in its table, which is kept newest first.
\<close>

datatype Status = In | Maybe | Out

record Plan =
  p_id :: nat
  p_slug :: string
  p_request_id :: "nat option"
  p_title :: string
  p_type :: string
  p_note :: "string option"
  p_start_ts :: Date
  p_end_ts :: Date
  p_location :: "string option"

record ResponseRow =
  r_id :: nat
  r_plan_id :: nat
  r_user_key :: string
  r_user_name :: "string option"
  r_status :: Status
  r_arrival :: "string option"

record ClaimRow =
  c_id :: nat
  c_plan_id :: nat
  c_item :: string
  c_claimed_by :: "string option"

record HangRequest =
  h_id :: nat
  h_slug :: string
  h_title :: string
  h_type :: string
  h_note :: "string option"

text \<open>The objects that the pages pass to \<open>insert\<close> and \<open>upsert\<close>.\<close>

record PlanInsert =
  pi_slug :: string
  pi_request_id :: nat
  pi_title :: string
  pi_type :: string
  pi_note :: "string option"
  pi_start_ts :: Date
  pi_end_ts :: Date

record ResponseUpsert =
  ru_plan_id :: nat
  ru_user_key :: string
  ru_user_name :: string
  ru_status :: Status
  ru_arrival :: "string option"

record ClaimInsert =
  ci_plan_id :: nat
  ci_item :: string
  ci_claimed_by :: "string option"

text \<open>
  The answer of a store call: \<open>{ data, error: null }\<close> or \<open>{ data: null, error }\<close>,
  the error carrying its message.
\<close>

datatype 'a Result = Data 'a | Error string

section \<open>The record store\<close>

text \<open>
  The store is a service outside the source files.  Its tables are lists of rows, newest
  first; \<open>serial\<close> is the next fresh identifier.  A call may fail for reasons outside
  the program (the network, the server): each call takes a \<open>fault\<close>, the error message
  of such a failure if there is one.
\<close>

record Store =
  tbl_plans :: "Plan list"
  tbl_responses :: "ResponseRow list"
  tbl_claims :: "ClaimRow list"
  serial :: nat

definition failing :: "string option \<Rightarrow> 'a Result \<Rightarrow> 'a Result" where
  "failing fault r = (case fault of Some m \<Rightarrow> Error m | None \<Rightarrow> r)"

text \<open>
  Modelled from the spec: \<open>plans(id, slug unique, ...)\<close> read with
  \<open>.eq("slug", slug).single()\<close>, which is an error unless exactly one row matches.
\<close>

definition select_plan :: "Store \<Rightarrow> string \<Rightarrow> Plan Result" where
  "select_plan db s =
     (case filter (\<lambda>p. p_slug p = s) (tbl_plans db) of
        [p] \<Rightarrow> Data p
      | _ \<Rightarrow> Error ''JSON object requested, multiple (or no) rows returned'')"

text \<open>
  Modelled from the spec: all responses, and all claims, of one plan, ordered by
  \<open>created_at\<close> descending.
\<close>

definition select_responses :: "Store \<Rightarrow> nat \<Rightarrow> ResponseRow list" where
  "select_responses db pid = filter (\<lambda>r. r_plan_id r = pid) (tbl_responses db)"

definition select_claims :: "Store \<Rightarrow> nat \<Rightarrow> ClaimRow list" where
  "select_claims db pid = filter (\<lambda>c. c_plan_id c = pid) (tbl_claims db)"

text \<open>
  Modelled from the spec: the merge-write of the response ledger, \<open>upsert\<close> with
  \<open>onConflict: "plan_id,user_key"\<close>.  If a response exists for that pair its
  \<open>user_name\<close>, \<open>status\<close> and \<open>arrival\<close> are replaced in place; otherwise a new row is
  created.
\<close>

definition sameKey :: "nat \<Rightarrow> string \<Rightarrow> ResponseRow \<Rightarrow> bool" where
  "sameKey pid k r = (r_plan_id r = pid \<and> r_user_key r = k)"

definition upsert_response :: "ResponseUpsert \<Rightarrow> Store \<Rightarrow> Store" where
  "upsert_response u db =
     (if \<exists>r \<in> set (tbl_responses db). sameKey (ru_plan_id u) (ru_user_key u) r
      then db\<lparr>tbl_responses :=
                map (\<lambda>r. if sameKey (ru_plan_id u) (ru_user_key u) r
                         then r\<lparr>r_user_name := Some (ru_user_name u),
                                r_status := ru_status u, r_arrival := ru_arrival u\<rparr>
                         else r)
                    (tbl_responses db)\<rparr>
      else db\<lparr>tbl_responses :=
                \<lparr>r_id = serial db, r_plan_id = ru_plan_id u, r_user_key = ru_user_key u,
                 r_user_name = Some (ru_user_name u), r_status = ru_status u,
                 r_arrival = ru_arrival u\<rparr> # tbl_responses db,
              serial := Suc (serial db)\<rparr>)"

text \<open>
  Modelled from the spec: \<open>claims(id, plan_id, item, claimed_by?)\<close>, unique on
  \<open>(plan_id, item)\<close>.  An insert of several rows is one statement: it adds every row,
  each with a fresh identifier, or fails as a whole when a row would break the
  uniqueness.
\<close>

fun stampClaims :: "nat \<Rightarrow> ClaimInsert list \<Rightarrow> ClaimRow list" where
  "stampClaims n [] = []"
| "stampClaims n (x # xs) =
     \<lparr>c_id = n, c_plan_id = ci_plan_id x, c_item = ci_item x, c_claimed_by = ci_claimed_by x\<rparr>
       # stampClaims (Suc n) xs"

definition insert_claims :: "ClaimInsert list \<Rightarrow> Store \<Rightarrow> Store Result" where
  "insert_claims xs db =
     (if distinct (map (\<lambda>x. (ci_plan_id x, ci_item x)) xs @
                  map (\<lambda>c. (c_plan_id c, c_item c)) (tbl_claims db))
      then Data (db\<lparr>tbl_claims := stampClaims (serial db) xs @ tbl_claims db,
                    serial := serial db + length xs\<rparr>)
      else Error ''duplicate key value violates unique constraint'')"

text \<open>
  Modelled from the spec: \<open>update({ claimed_by }).eq("id", id)\<close> sets the field on the
  rows with that identifier.
\<close>

definition update_claim :: "nat \<Rightarrow> string option \<Rightarrow> Store \<Rightarrow> Store" where
  "update_claim i v db =
     db\<lparr>tbl_claims := map (\<lambda>c. if c_id c = i then c\<lparr>c_claimed_by := v\<rparr> else c) (tbl_claims db)\<rparr>"

text \<open>
  Modelled from the spec: \<open>plans(id, slug unique, request_id?, title, type, note,
  start_ts, end_ts, location?)\<close>.  A single insert; a column that the insert does not
  name is null.
\<close>

definition insert_plan :: "PlanInsert \<Rightarrow> Store \<Rightarrow> Store Result" where
  "insert_plan x db =
     (if pi_slug x \<in> set (map p_slug (tbl_plans db))
      then Error ''duplicate key value violates unique constraint''
      else Data (db\<lparr>tbl_plans :=
                      \<lparr>p_id = serial db, p_slug = pi_slug x, p_request_id = Some (pi_request_id x),
                       p_title = pi_title x, p_type = pi_type x, p_note = pi_note x,
                       p_start_ts = pi_start_ts x, p_end_ts = pi_end_ts x,
                       p_location = None\<rparr> # tbl_plans db,
                    serial := Suc (serial db)\<rparr>))"


section \<open>The plan page\<close>

text \<open>
  The state of the plan page: the React state variables, the \<open>slug\<close> of the route, the
  participant's key, and the name that \<open>setUserName\<close> keeps in local storage.  The
  page's snapshot of the plan is \<open>plan\<close>, \<open>responses\<close> and \<open>claims\<close>.
\<close>

record PlanPage =
  slug :: string
  plan :: "Plan option"
  responses :: "ResponseRow list"
  claims :: "ClaimRow list"
  loading :: bool
  err :: "string option"
  name :: string
  userKey :: string
  tw_user_name :: string

definition DEFAULT_POTLUCK_ITEMS :: "string list" where
  "DEFAULT_POTLUCK_ITEMS =
     [''Main dish'', ''Salad / Veg'', ''Snack / App'', ''Dessert'', ''Drinks'']"

text \<open>The faults of the three queries of one \<open>load\<close>.\<close>

record LoadFaults =
  plan_fault :: "string option"
  resp_fault :: "string option"
  claim_fault :: "string option"

definition noFaults :: LoadFaults where
  "noFaults = \<lparr>plan_fault = None, resp_fault = None, claim_fault = None\<rparr>"

definition load :: "bool \<Rightarrow> LoadFaults \<Rightarrow> Store \<Rightarrow> PlanPage \<Rightarrow> PlanPage" where
  "load showSpinner net db st0 =
     (let st1 = (if showSpinner then st0\<lparr>loading := True\<rparr> else st0);
          st2 = st1\<lparr>err := None\<rparr>
      in case failing (plan_fault net) (select_plan db (slug st2)) of
           Error m \<Rightarrow>
             (let st3 = st2\<lparr>err := Some m\<rparr>
              in if showSpinner then st3\<lparr>loading := False\<rparr> else st3)
         | Data planData \<Rightarrow>
             (let st3 = st2\<lparr>plan := Some planData\<rparr>;
                  planId = p_id planData;
                  respRes = failing (resp_fault net) (Data (select_responses db planId));
                  st4 = (case respRes of Error m \<Rightarrow> st3\<lparr>err := Some m\<rparr> | Data _ \<Rightarrow> st3);
                  st5 = st4\<lparr>responses := (case respRes of Data d \<Rightarrow> d | Error _ \<Rightarrow> [])\<rparr>;
                  claimRes = failing (claim_fault net) (Data (select_claims db planId));
                  st6 = (case claimRes of Error m \<Rightarrow> st5\<lparr>err := Some m\<rparr> | Data _ \<Rightarrow> st5);
                  st7 = st6\<lparr>claims := (case claimRes of Data d \<Rightarrow> d | Error _ \<Rightarrow> [])\<rparr>
              in if showSpinner then st7\<lparr>loading := False\<rparr> else st7))"

text \<open>One tick of the poll: the interval handler calls \<open>load(false)\<close>.\<close>

definition pollTick :: "LoadFaults \<Rightarrow> Store \<Rightarrow> PlanPage \<Rightarrow> PlanPage" where
  "pollTick net db st = load False net db st"


definition myResponse :: "PlanPage \<Rightarrow> ResponseRow option" where
  "myResponse st =
     (case plan st of
        None \<Rightarrow> None
      | Some _ \<Rightarrow> find (\<lambda>r. r_user_key r = userKey st) (responses st))"

text \<open>
  The handlers change the store and the page: each takes the fault of its write and the
  faults of the \<open>load(false)\<close> that follows a successful write.
\<close>

definition setRSVP ::
  "Status \<Rightarrow> string option \<Rightarrow> LoadFaults \<Rightarrow> Store \<Rightarrow> PlanPage \<Rightarrow> Store \<times> PlanPage" where
  "setRSVP status wfault net db st0 =
     (case plan st0 of
        None \<Rightarrow> (db, st0)
      | Some p \<Rightarrow>
          (let st1 = st0\<lparr>err := None\<rparr>
           in if trim (name st1) = [] then (db, st1\<lparr>err := Some ''Add your name first.''\<rparr>)
              else
                (let st2 = st1\<lparr>tw_user_name := trim (name st1)\<rparr>;
                     payload = \<lparr>ru_plan_id = p_id p, ru_user_key = userKey st2,
                                ru_user_name = trim (name st2), ru_status = status,
                                ru_arrival = (case myResponse st2 of
                                                None \<Rightarrow> None | Some r \<Rightarrow> r_arrival r)\<rparr>
                 in case failing wfault (Data (upsert_response payload db)) of
                      Error m \<Rightarrow> (db, st2\<lparr>err := Some m\<rparr>)
                    | Data db' \<Rightarrow> (db', load False net db' st2))))"


text \<open>The rows that \<open>ensurePotluckDefaults\<close> inserts: one unclaimed row per missing item.\<close>

definition seedRows :: "nat \<Rightarrow> string list \<Rightarrow> ClaimInsert list" where
  "seedRows pid missing =
     map (\<lambda>item. \<lparr>ci_plan_id = pid, ci_item = item, ci_claimed_by = None\<rparr>) missing"

definition ensurePotluckDefaults ::
  "string option \<Rightarrow> LoadFaults \<Rightarrow> Store \<Rightarrow> PlanPage \<Rightarrow> Store \<times> PlanPage" where
  "ensurePotluckDefaults wfault net db st0 =
     (case plan st0 of
        None \<Rightarrow> (db, st0)
      | Some p \<Rightarrow>
          (let existing = set (map c_item (claims st0));
               missing = filter (\<lambda>i. i \<notin> existing) DEFAULT_POTLUCK_ITEMS
           in if length missing = 0 then (db, st0)
              else
                (case failing wfault (insert_claims (seedRows (p_id p) missing) db) of
                   Error m \<Rightarrow> (db, load False net db (st0\<lparr>err := Some m\<rparr>))
                 | Data db' \<Rightarrow> (db', load False net db' st0))))"

text \<open>The effect on \<open>plan?.id\<close> that seeds the defaults of a potluck plan.\<close>

definition potluckEffect ::
  "string option \<Rightarrow> LoadFaults \<Rightarrow> Store \<Rightarrow> PlanPage \<Rightarrow> Store \<times> PlanPage" where
  "potluckEffect wfault net db st =
     (case plan st of
        None \<Rightarrow> (db, st)
      | Some p \<Rightarrow>
          if includes' (toLowerCase (p_type p)) ''potluck''
          then ensurePotluckDefaults wfault net db st else (db, st))"

definition claimItem ::
  "string \<Rightarrow> string option \<Rightarrow> LoadFaults \<Rightarrow> Store \<Rightarrow> PlanPage \<Rightarrow> Store \<times> PlanPage" where
  "claimItem item wfault net db st0 =
     (case plan st0 of
        None \<Rightarrow> (db, st0)
      | Some p \<Rightarrow>
          (let st1 = st0\<lparr>err := None\<rparr>
           in if trim (name st1) = [] then (db, st1\<lparr>err := Some ''Add your name first.''\<rparr>)
              else
                (let st2 = st1\<lparr>tw_user_name := trim (name st1)\<rparr>
                 in case find (\<lambda>c. c_item c = item) (claims st2) of
                      None \<Rightarrow> (db, st2)
                    | Some existing \<Rightarrow>
                        (case failing wfault
                                (Data (update_claim (c_id existing) (Some (trim (name st2))) db)) of
                           Error m \<Rightarrow> (db, st2\<lparr>err := Some m\<rparr>)
                         | Data db' \<Rightarrow> (db', load False net db' st2)))))"

definition unclaimItem ::
  "string \<Rightarrow> string option \<Rightarrow> LoadFaults \<Rightarrow> Store \<Rightarrow> PlanPage \<Rightarrow> Store \<times> PlanPage" where
  "unclaimItem item wfault net db st0 =
     (case plan st0 of
        None \<Rightarrow> (db, st0)
      | Some p \<Rightarrow>
          (let st1 = st0\<lparr>err := None\<rparr>
           in case find (\<lambda>c. c_item c = item) (claims st1) of
                None \<Rightarrow> (db, st1)
              | Some existing \<Rightarrow>
                  if orEmpty (c_claimed_by existing) \<noteq> trim (name st1)
                  then (db, st1\<lparr>err := Some ''Only the person who claimed it can unclaim.''\<rparr>)
                  else
                    (case failing wfault (Data (update_claim (c_id existing) None db)) of
                       Error m \<Rightarrow> (db, st1\<lparr>err := Some m\<rparr>)
                     | Data db' \<Rightarrow> (db', load False net db' st1))))"

section \<open>Promoting a candidate (request page)\<close>

text \<open>
  The state of the request page that \<open>createPlanFromOverlap\<close> touches: the loaded
  request, the error message, and the path that \<open>router.push\<close> was last given.  The
  slug is the value that \<open>nanoid(10)\<close> returns, an input of the model.
\<close>

record RequestPage =
  req :: "HangRequest option"
  rq_rows :: "WindowRow list"
  rq_err :: "string option"
  router_path :: "string option"

definition createPlanFromOverlap ::
  "Date \<Rightarrow> Date \<Rightarrow> string \<Rightarrow> string option \<Rightarrow> Store \<Rightarrow> RequestPage \<Rightarrow> Store \<times> RequestPage" where
  "createPlanFromOverlap start_d end_d planSlug wfault db st =
     (case req st of
        None \<Rightarrow> (db, st)
      | Some r \<Rightarrow>
          (case failing wfault
                  (insert_plan \<lparr>pi_slug = planSlug, pi_request_id = h_id r, pi_title = h_title r,
                                pi_type = h_type r, pi_note = h_note r,
                                pi_start_ts = start_d, pi_end_ts = end_d\<rparr> db) of
             Error m \<Rightarrow> (db, st\<lparr>rq_err := Some m\<rparr>)
           | Data db' \<Rightarrow> (db', st\<lparr>router_path := Some (''/p/'' @ planSlug)\<rparr>)))"


section \<open>Consistency of a page with the store\<close>

text \<open>
  The page is in sync with the store when its snapshot is what a successful \<open>load\<close>
  would read: the displayed plan is the stored plan of the page's slug, and the displayed
  responses and claims are the stored ones of that plan.
\<close>

definition in_sync :: "Store \<Rightarrow> PlanPage \<Rightarrow> bool" where
  "in_sync db st =
     (case plan st of
        None \<Rightarrow> False
      | Some p \<Rightarrow> select_plan db (slug st) = Data p \<and>
                  responses st = select_responses db (p_id p) \<and>
                  claims st = select_claims db (p_id p))"

text \<open>
  Modelled from the spec: the uniqueness constraints of the store, \<open>responses\<close> unique
  on \<open>(plan_id, user_key)\<close>, \<open>claims\<close> unique on \<open>(plan_id, item)\<close>, and the
  identifiers of the claim rows distinct.
\<close>

definition responses_unique :: "Store \<Rightarrow> bool" where
  "responses_unique db = distinct (map (\<lambda>r. (r_plan_id r, r_user_key r)) (tbl_responses db))"

definition claims_unique :: "Store \<Rightarrow> bool" where
  "claims_unique db = distinct (map (\<lambda>c. (c_plan_id c, c_item c)) (tbl_claims db))"

definition claim_ids_unique :: "Store \<Rightarrow> bool" where
  "claim_ids_unique db = distinct (map c_id (tbl_claims db))"


section \<open>Example data\<close>

definition hours :: "int \<Rightarrow> int \<Rightarrow> WindowRow" where
  "hours a b = \<lparr>w_user_key = ''key'', w_user_name = Some ''Kate'',
                w_start_ts = a * 3600000, w_end_ts = b * 3600000\<rparr>"

definition busyDay :: "WindowRow list" where
  "busyDay = [hours 0 10, hours 0 10, hours 0 1, hours 1 2, hours 2 3, hours 3 4,
              hours 4 5, hours 5 6, hours 6 7, hours 7 8]"

definition kate :: ResponseRow where
  "kate = \<lparr>r_id = 2, r_plan_id = 1, r_user_key = ''key-kate'', r_user_name = Some ''Kate'',
           r_status = In, r_arrival = Some ''On time''\<rparr>"

definition picnic :: Plan where
  "picnic = \<lparr>p_id = 1, p_slug = ''V1StGXR8_Z'', p_request_id = Some 0, p_title = ''Picnic'',
             p_type = ''Potluck'', p_note = None, p_start_ts = 37800000, p_end_ts = 39600000,
             p_location = None\<rparr>"

definition dessert :: ClaimRow where
  "dessert = \<lparr>c_id = 3, c_plan_id = 1, c_item = ''Dessert'', c_claimed_by = Some ''Bob''\<rparr>"

definition sampleStore :: Store where
  "sampleStore = \<lparr>tbl_plans = [picnic], tbl_responses = [kate], tbl_claims = [dessert],
                  serial = 4\<rparr>"

definition freshPage :: PlanPage where
  "freshPage = \<lparr>slug = ''V1StGXR8_Z'', plan = None, responses = [], claims = [],
                loading = True, err = None, name = '' Kate '', userKey = ''key-kate'',
                tw_user_name = []\<rparr>"

definition samplePage :: PlanPage where
  "samplePage = load True noFaults sampleStore freshPage"

definition picnicRequest :: HangRequest where
  "picnicRequest = \<lparr>h_id = 0, h_slug = ''Uakgb_J5m9'', h_title = ''Picnic'', h_type = ''Potluck'',
                    h_note = Some ''Bring a blanket''\<rparr>"

definition requestPage :: RequestPage where
  "requestPage = \<lparr>req = Some picnicRequest,
                  rq_rows = [\<lparr>w_user_key = ''key-alice'', w_user_name = Some ''Alice'',
                              w_start_ts = 36000000, w_end_ts = 39600000\<rparr>,
                             \<lparr>w_user_key = ''key-bob'', w_user_name = Some ''Bob'',
                              w_start_ts = 37800000, w_end_ts = 41400000\<rparr>],
                  rq_err = None, router_path = None\<rparr>"

text \<open>
  A stale snapshot: Kate claims the dessert, then Bob, on his own page, claims it too,
  before the next tick of Kate's page.  The page at mount: the first render of Kate's
  page in which the plan is set.
\<close>

definition kateStalePage :: PlanPage where
  "kateStalePage = snd (claimItem ''Dessert'' None noFaults sampleStore samplePage)"

definition bobPage :: "Store \<Rightarrow> PlanPage" where
  "bobPage db = load True noFaults db (freshPage\<lparr>name := ''Bob'', userKey := ''key-bob''\<rparr>)"

definition storeAfterBob :: Store where
  "storeAfterBob =
     fst (claimItem ''Dessert'' None noFaults
            (fst (claimItem ''Dessert'' None noFaults sampleStore samplePage))
            (bobPage (fst (claimItem ''Dessert'' None noFaults sampleStore samplePage))))"


definition respDown :: LoadFaults where
  "respDown = \<lparr>plan_fault = None, resp_fault = Some ''Failed to fetch'', claim_fault = None\<rparr>"

definition planDown :: LoadFaults where
  "planDown = \<lparr>plan_fault = Some ''Failed to fetch'', resp_fault = None, claim_fault = None\<rparr>"

definition claimDown :: LoadFaults where
  "claimDown = \<lparr>plan_fault = None, resp_fault = None, claim_fault = Some ''Failed to fetch''\<rparr>"

section \<open>Properties of the overlap computation\<close>

lemma overlapMinutes_pos_iff:
  "0 < overlapMinutes a1 a2 b1 b2 \<longleftrightarrow> max a1 b1 < min a2 b2"
  by (simp add: overlapMinutes_def Let_def)

lemma overlapMinutes_ge30_iff:
  "30 \<le> overlapMinutes a1 a2 b1 b2 \<longleftrightarrow> 1800000 \<le> min a2 b2 - max a1 b1"
  by (auto simp add: overlapMinutes_def Let_def le_divide_eq)

lemma Math_round_ms:
  "Math_round (of_int ms / 60000) = (ms + 30000) div 60000"
proof -
  have "(of_int ms / 60000 + 1 / 2 :: rat) = of_int (ms + 30000) / of_int 60000"
    by (simp add: field_simps)
  then show ?thesis
    unfolding Math_round_def by (simp only: floor_divide_of_int_eq)
qed

lemma overlapMinutes_ms:
  "0 < min a2 b2 - max a1 b1 \<Longrightarrow>
   overlapMinutes a1 a2 b1 b2 = of_int (min a2 b2 - max a1 b1) / 60000"
  by (simp add: overlapMinutes_def Let_def)

lemma pushPair_ms:
  "pushPair a b =
     (if 1800000 \<le> min (end' a) (end' b) - max (start a) (start b)
      then [\<lparr>start = max (start a) (start b), end' = min (end' a) (end' b),
             minutes = (min (end' a) (end' b) - max (start a) (start b) + 30000) div 60000\<rparr>]
      else [])"
proof (cases "1800000 \<le> min (end' a) (end' b) - max (start a) (start b)")
  case True
  then have pos: "0 < min (end' a) (end' b) - max (start a) (start b)" by linarith
  have "Math_round (overlapMinutes (start a) (end' a) (start b) (end' b)) =
        (min (end' a) (end' b) - max (start a) (start b) + 30000) div 60000"
    by (simp only: overlapMinutes_ms[OF pos] Math_round_ms)
  with True show ?thesis
    by (simp add: pushPair_def Let_def overlapMinutes_ge30_iff)
next
  case False
  then show ?thesis
    by (simp add: pushPair_def Let_def overlapMinutes_ge30_iff)
qed

lemma pushPair_props:
  assumes "x \<in> set (pushPair a b)"
  shows "start x = max (start a) (start b)" "end' x = min (end' a) (end' b)"
    "1800000 \<le> end' x - start x" "minutes x = (end' x - start x + 30000) div 60000"
  using assms by (auto simp add: pushPair_ms split: if_splits)

lemma allPairs_props:
  assumes "x \<in> set (allPairs ws)"
  shows "1800000 \<le> end' x - start x \<and> minutes x = (end' x - start x + 30000) div 60000"
  using assms
  by (induction ws) (auto dest: pushPair_props)

lemma set_dedupe_subset: "set (dedupe seen xs) \<subseteq> set xs"
  by (induction xs arbitrary: seen) auto

lemma dedupe_keys: "dedupeKey ` set (dedupe seen xs) = dedupeKey ` set xs - seen"
  by (induction xs arbitrary: seen) auto

lemma distinct_dedupe_keys: "distinct (map dedupeKey (dedupe seen xs))"
  by (induction xs arbitrary: seen) (auto simp: dedupe_keys)

lemma length_dedupe: "length (dedupe {} xs) = card (dedupeKey ` set xs)"
proof -
  have "length (dedupe {} xs) = length (map dedupeKey (dedupe {} xs))" by simp
  also have "\<dots> = card (set (map dedupeKey (dedupe {} xs)))"
    using distinct_dedupe_keys by (simp only: distinct_card)
  also have "\<dots> = card (dedupeKey ` set xs)"
    by (simp add: dedupe_keys)
  finally show ?thesis .
qed

lemma distinct_map_sort_key:
  "distinct (map g xs) \<Longrightarrow> distinct (map g (sort_key f xs))"
  by (simp add: distinct_map)

lemma distinct_map_take: "distinct (map g xs) \<Longrightarrow> distinct (map g (take n xs))"
  by (simp add: take_map[symmetric])


lemma allPairs_nth:
  "i < j \<Longrightarrow> j < length ws \<Longrightarrow> set (pushPair (ws ! i) (ws ! j)) \<subseteq> set (allPairs ws)"
proof (induction ws arbitrary: i j)
  case Nil
  then show ?case by simp
next
  case (Cons a ws)
  show ?case
  proof (cases i)
    case 0
    with Cons.prems obtain k where k: "j = Suc k" "k < length ws"
      by (cases j) auto
    then have "ws ! k \<in> set ws" by simp
    then have "set (pushPair a (ws ! k)) \<subseteq> set (concat (map (pushPair a) ws))" by auto
    with 0 k show ?thesis by auto
  next
    case (Suc i')
    with Cons.prems obtain k where k: "j = Suc k" "k < length ws" "i' < k"
      by (cases j) auto
    from Cons.IH[OF k(3) k(2)] Suc k show ?thesis by auto
  qed
qed

lemma Overlap_eqI:
  fixes x y :: Overlap
  shows "start x = start y \<Longrightarrow> end' x = end' y \<Longrightarrow> minutes x = minutes y \<Longrightarrow> x = y"
  by simp

lemma allPairs_dedupe_mem:
  assumes "x \<in> set (allPairs ws)"
  shows "x \<in> set (dedupe {} (allPairs ws))"
proof -
  from assms have "dedupeKey x \<in> dedupeKey ` set (dedupe {} (allPairs ws))"
    by (simp add: dedupe_keys)
  then obtain y where y: "y \<in> set (dedupe {} (allPairs ws))" "dedupeKey y = dedupeKey x"
    by auto
  from y(1) have "y \<in> set (allPairs ws)"
    using set_dedupe_subset by blast
  from allPairs_props[OF this] allPairs_props[OF assms] y(2)
  have "y = x" by (simp add: dedupeKey_def)
  with y(1) show ?thesis by simp
qed

text \<open>
  Claim C2.  For all windows \<open>A\<close> and \<open>B\<close>, \<open>overlapMinutes\<close> returns a positive
  duration exactly when \<open>max(A.start, B.start) < min(A.end, B.end)\<close>; the duration is
  then \<open>min(A.end, B.end) - max(A.start, B.start)\<close> in minutes, and zero otherwise.
\<close>

theorem overlapMinutes_spec:
  "(0 < overlapMinutes aStart aEnd bStart bEnd \<longleftrightarrow> max aStart bStart < min aEnd bEnd) \<and>
   overlapMinutes aStart aEnd bStart bEnd =
     (if max aStart bStart < min aEnd bEnd
      then of_int (min aEnd bEnd - max aStart bStart) / 60000 else 0)"
  by (simp add: overlapMinutes_def Let_def)

theorem overlapMinutes_spec_witness:
  "max (36000000::int) 37800000 < min 39600000 41400000 \<and>
   overlapMinutes 36000000 39600000 37800000 41400000 = 30 \<and>
   \<not> max (0::int) 7200000 < min 3600000 10800000 \<and>
   overlapMinutes 0 3600000 7200000 10800000 = 0"
  using overlapMinutes_spec [of 36000000 39600000 37800000 41400000]
    overlapMinutes_spec [of 0 3600000 7200000 10800000]
  by simp

lemma overlaps_subset: "set (overlaps rows) \<subseteq> set (allPairs (map toWindow rows))"
proof -
  have "set (overlaps rows) \<subseteq> set (sort_key start (deduped rows))"
    unfolding overlaps_def by (rule set_take_subset)
  also have "\<dots> \<subseteq> set (allPairs (map toWindow rows))"
    by (simp add: deduped_def set_dedupe_subset)
  finally show ?thesis .
qed

lemma overlaps_short:
  "length (deduped rows) \<le> 8 \<Longrightarrow> set (overlaps rows) = set (deduped rows)"
  by (simp add: overlaps_def)

text \<open>
  Claim C3.  Every candidate that \<open>overlaps\<close> returns lasts at least 30 minutes, in
  its \<open>minutes\<close> field and as the distance from its start to its end.  Two windows
  whose intersection is exactly 30 minutes do produce a candidate: it is in the
  de-duplicated list, and in the output whenever that list has at most eight entries.
\<close>

theorem overlaps_min_duration:
  "(\<forall>x \<in> set (overlaps rows). 30 \<le> minutes x \<and> 30 * 60000 \<le> end' x - start x) \<and>
   (\<forall>i j. i < j \<and> j < length rows \<and>
      min (w_end_ts (rows ! i)) (w_end_ts (rows ! j)) - max (w_start_ts (rows ! i)) (w_start_ts (rows ! j))
        = 30 * 60000 \<longrightarrow>
      \<lparr>start = max (w_start_ts (rows ! i)) (w_start_ts (rows ! j)),
       end' = min (w_end_ts (rows ! i)) (w_end_ts (rows ! j)), minutes = 30\<rparr> \<in> set (deduped rows) \<and>
      (length (deduped rows) \<le> 8 \<longrightarrow>
       \<lparr>start = max (w_start_ts (rows ! i)) (w_start_ts (rows ! j)),
        end' = min (w_end_ts (rows ! i)) (w_end_ts (rows ! j)), minutes = 30\<rparr> \<in> set (overlaps rows)))"
proof (intro conjI ballI allI impI)
  fix x assume "x \<in> set (overlaps rows)"
  then have "x \<in> set (allPairs (map toWindow rows))"
    using overlaps_subset by blast
  from allPairs_props[OF this]
  have p: "1800000 \<le> end' x - start x" "minutes x = (end' x - start x + 30000) div 60000"
    by simp_all
  from p(1) show "30 * 60000 \<le> end' x - start x" by simp
  from p(1) have "30 \<le> (end' x - start x + 30000) div 60000" by linarith
  with p(2) show "30 \<le> minutes x" by simp
next
  fix i j
  assume h: "i < j \<and> j < length rows \<and>
      min (w_end_ts (rows ! i)) (w_end_ts (rows ! j)) - max (w_start_ts (rows ! i)) (w_start_ts (rows ! j))
        = 30 * 60000"
  let ?c = "\<lparr>start = max (w_start_ts (rows ! i)) (w_start_ts (rows ! j)),
       end' = min (w_end_ts (rows ! i)) (w_end_ts (rows ! j)), minutes = 30\<rparr>"
  from h have ij: "i < j" "j < length (map toWindow rows)" by simp_all
  from h have "?c \<in> set (pushPair (map toWindow rows ! i) (map toWindow rows ! j))"
    by (simp add: pushPair_ms toWindow_def)
  with allPairs_nth[OF ij] have "?c \<in> set (allPairs (map toWindow rows))" by blast
  then show d: "?c \<in> set (deduped rows)"
    unfolding deduped_def by (rule allPairs_dedupe_mem)
  assume "length (deduped rows) \<le> 8"
  with d show "?c \<in> set (overlaps rows)" by (simp add: overlaps_short)
qed



theorem overlaps_min_duration_witness:
  "(0::nat) < 1 \<and> 1 < length [\<lparr>w_user_key = ''alice'', w_user_name = Some ''Alice'', w_start_ts = 36000000, w_end_ts = 39600000\<rparr>,
             \<lparr>w_user_key = ''bob'', w_user_name = Some ''Bob'', w_start_ts = 37800000, w_end_ts = 41400000\<rparr>] \<and>
   min (39600000::int) 41400000 - max 36000000 37800000 = 30 * 60000 \<and>
   \<lparr>start = 37800000, end' = 39600000, minutes = 30\<rparr> \<in> set (overlaps [\<lparr>w_user_key = ''alice'', w_user_name = Some ''Alice'', w_start_ts = 36000000, w_end_ts = 39600000\<rparr>,
             \<lparr>w_user_key = ''bob'', w_user_name = Some ''Bob'', w_start_ts = 37800000, w_end_ts = 41400000\<rparr>]) \<and>
   overlaps [\<lparr>w_user_key = ''alice'', w_user_name = Some ''Alice'', w_start_ts = 36000000, w_end_ts = 39600000\<rparr>,
             \<lparr>w_user_key = ''bob'', w_user_name = Some ''Bob'', w_start_ts = 37800000, w_end_ts = 41400000\<rparr>]
   = [\<lparr>start = 37800000, end' = 39600000, minutes = 30\<rparr>]"
proof -
  let ?rows = "[\<lparr>w_user_key = ''alice'', w_user_name = Some ''Alice'', w_start_ts = 36000000, w_end_ts = 39600000\<rparr>,
             \<lparr>w_user_key = ''bob'', w_user_name = Some ''Bob'', w_start_ts = 37800000, w_end_ts = 41400000\<rparr>]"
  have ev: "overlaps ?rows = [\<lparr>start = 37800000, end' = 39600000, minutes = 30\<rparr>]"
    by code_simp
  have len: "length (deduped ?rows) \<le> 8"
    by code_simp
  have h: "(0::nat) < 1 \<and> 1 < length ?rows \<and>
      min (w_end_ts (?rows ! 0)) (w_end_ts (?rows ! 1)) - max (w_start_ts (?rows ! 0)) (w_start_ts (?rows ! 1))
        = 30 * 60000"
    by simp
  from overlaps_min_duration [of ?rows] h len
  have "\<lparr>start = max (w_start_ts (?rows ! 0)) (w_start_ts (?rows ! 1)),
        end' = min (w_end_ts (?rows ! 0)) (w_end_ts (?rows ! 1)), minutes = 30\<rparr> \<in> set (overlaps ?rows)"
    by blast
  then have "\<lparr>start = 37800000, end' = 39600000, minutes = 30\<rparr> \<in> set (overlaps ?rows)"
    by simp
  with ev show ?thesis by simp
qed


lemma overlaps_earliest:
  assumes x: "x \<in> set (overlaps rows)"
    and c: "c \<in> set (deduped rows)" "c \<notin> set (overlaps rows)"
  shows "start x \<le> start c"
proof -
  let ?s = "sort_key start (deduped rows)"
  have split: "?s = take 8 ?s @ drop 8 ?s" by simp
  have "sorted (map start ?s)" by simp
  then have "sorted (map start (take 8 ?s) @ map start (drop 8 ?s))"
    by (simp only: map_append[symmetric] append_take_drop_id)
  then have le: "\<forall>a \<in> set (take 8 ?s). \<forall>b \<in> set (drop 8 ?s). start a \<le> start b"
    by (auto simp add: sorted_append simp del: append_take_drop_id)
  from c(1) have "c \<in> set ?s" by simp
  then have "c \<in> set (take 8 ?s) \<union> set (drop 8 ?s)"
    by (simp only: set_append[symmetric] append_take_drop_id)
  with c(2) have "c \<in> set (drop 8 ?s)" by (simp add: overlaps_def)
  with x le show ?thesis by (simp add: overlaps_def)
qed

text \<open>
  Claim C4.  The output of \<open>overlaps\<close> has no two entries with the same start and end,
  has at most eight entries, and is sorted ascending by start.  The cut comes last: the
  length is the number of distinct (start, end) pairs among all candidates, capped at
  eight, and every candidate that was cut starts no earlier than every entry kept.
\<close>

theorem overlaps_dedup_sorted_capped:
  "distinct (map (\<lambda>x. (start x, end' x)) (overlaps rows)) \<and>
   length (overlaps rows) \<le> 8 \<and>
   sorted (map start (overlaps rows)) \<and>
   length (overlaps rows) =
     min 8 (card ((\<lambda>x. (start x, end' x)) ` set (allPairs (map toWindow rows)))) \<and>
   (\<forall>x \<in> set (overlaps rows). \<forall>c \<in> set (allPairs (map toWindow rows)).
      c \<notin> set (overlaps rows) \<longrightarrow> start x \<le> start c)"
proof (intro conjI ballI impI)
  have k: "(\<lambda>x. (start x, end' x)) = dedupeKey"
    by (simp add: dedupeKey_def fun_eq_iff)
  have "distinct (map dedupeKey (deduped rows))"
    by (simp add: deduped_def distinct_dedupe_keys)
  then have "distinct (map dedupeKey (sort_key start (deduped rows)))"
    by (rule distinct_map_sort_key)
  then have "distinct (map dedupeKey (overlaps rows))"
    unfolding overlaps_def by (rule distinct_map_take)
  then show "distinct (map (\<lambda>x. (start x, end' x)) (overlaps rows))"
    by (simp only: k)
  show "length (overlaps rows) \<le> 8" by (simp add: overlaps_def)
  have "sorted (take 8 (map start (sort_key start (deduped rows))))"
    by (rule sorted_wrt_take) simp
  then show "sorted (map start (overlaps rows))"
    by (simp add: overlaps_def take_map)
  have "length (overlaps rows) = min 8 (length (deduped rows))"
    by (simp add: overlaps_def min.commute)
  then show "length (overlaps rows) =
     min 8 (card ((\<lambda>x. (start x, end' x)) ` set (allPairs (map toWindow rows))))"
    by (simp only: k deduped_def length_dedupe)
next
  fix x c
  assume x: "x \<in> set (overlaps rows)"
    and c: "c \<in> set (allPairs (map toWindow rows))" "c \<notin> set (overlaps rows)"
  from c(1) have d: "c \<in> set (deduped rows)"
    unfolding deduped_def by (rule allPairs_dedupe_mem)
  from x d c(2) show "start x \<le> start c" by (rule overlaps_earliest)
qed




theorem overlaps_dedup_sorted_capped_witness:
  "\<lparr>start = 0, end' = 3600000, minutes = 60\<rparr> \<in> set (overlaps busyDay) \<and>
   \<lparr>start = 25200000, end' = 28800000, minutes = 60\<rparr> \<in> set (allPairs (map toWindow busyDay)) \<and>
   \<lparr>start = 25200000, end' = 28800000, minutes = 60\<rparr> \<notin> set (overlaps busyDay) \<and>
   start \<lparr>start = 0, end' = 3600000, minutes = 60\<rparr>
     \<le> start \<lparr>start = 25200000, end' = 28800000, minutes = 60\<rparr> \<and>
   length (overlaps busyDay) = 8"
proof -
  let ?x = "\<lparr>start = 0, end' = 3600000, minutes = 60\<rparr>"
  let ?c = "\<lparr>start = 25200000, end' = 28800000, minutes = 60\<rparr>"
  have x: "?x \<in> set (overlaps busyDay)" by code_simp
  have c: "?c \<in> set (allPairs (map toWindow busyDay))" by code_simp
  have n: "?c \<notin> set (overlaps busyDay)" by code_simp
  have l: "length (overlaps busyDay) = 8" by code_simp
  from overlaps_dedup_sorted_capped [of busyDay] x c n
  have "start ?x \<le> start ?c" by blast
  with x c n l show ?thesis by blast
qed

section \<open>Properties of the plan page\<close>

lemma load_plan_error:
  "failing (plan_fault net) (select_plan db (slug st)) = Error m \<Longrightarrow>
   load False net db st = st\<lparr>err := Some m\<rparr>"
  by (simp add: load_def Let_def)

lemma load_plan_data:
  "failing (plan_fault net) (select_plan db (slug st)) = Data p \<Longrightarrow>
   load False net db st =
     st\<lparr>err := (case claim_fault net of Some m \<Rightarrow> Some m | None \<Rightarrow> resp_fault net),
        plan := Some p,
        responses := (case resp_fault net of Some m \<Rightarrow> [] | None \<Rightarrow> select_responses db (p_id p)),
        claims := (case claim_fault net of Some m \<Rightarrow> [] | None \<Rightarrow> select_claims db (p_id p))\<rparr>"
  by (simp add: load_def Let_def failing_def split: option.splits)

text \<open>
  Claim C1, as the code has it.  A tick of the poll whose plan query fails leaves the
  displayed plan, responses and claims unchanged and records the error message.  A tick
  whose plan query succeeds but whose responses query fails replaces the displayed
  responses by the empty list, and one whose claims query fails replaces the displayed
  claims by the empty list: \<open>load\<close> stores \<open>respData || []\<close> after recording the
  error.  The message recorded is that of the claims query if it failed, otherwise that
  of the responses query.  So the claim as stated, that no failed tick changes the
  responses or the claims, holds for a failed plan query only; the example after the
  theorem is a tick that fails and blanks the responses.
\<close>

theorem pollTick_keeps_snapshot_on_plan_error:
  "(failing (plan_fault net) (select_plan db (slug st)) = Error m \<longrightarrow>
      plan (pollTick net db st) = plan st \<and>
      responses (pollTick net db st) = responses st \<and>
      claims (pollTick net db st) = claims st \<and>
      err (pollTick net db st) = Some m) \<and>
   (failing (plan_fault net) (select_plan db (slug st)) = Data p \<and> resp_fault net = Some m \<longrightarrow>
      plan (pollTick net db st) = Some p \<and>
      responses (pollTick net db st) = [] \<and>
      err (pollTick net db st) = Some (case claim_fault net of None \<Rightarrow> m | Some m' \<Rightarrow> m')) \<and>
   (failing (plan_fault net) (select_plan db (slug st)) = Data p \<and> claim_fault net = Some m \<longrightarrow>
      plan (pollTick net db st) = Some p \<and>
      claims (pollTick net db st) = [] \<and>
      err (pollTick net db st) = Some m)"
  by (auto simp add: pollTick_def load_plan_error load_plan_data split: option.splits)


theorem pollTick_keeps_snapshot_on_plan_error_witness:
  "failing (plan_fault planDown) (select_plan sampleStore (slug samplePage)) = Error ''Failed to fetch'' \<and>
   responses (pollTick planDown sampleStore samplePage) = [kate] \<and>
   failing (plan_fault respDown) (select_plan sampleStore (slug samplePage)) = Data picnic \<and>
   resp_fault respDown = Some ''Failed to fetch'' \<and>
   responses (pollTick respDown sampleStore samplePage) = [] \<and>
   err (pollTick respDown sampleStore samplePage) = Some ''Failed to fetch'' \<and>
   failing (plan_fault claimDown) (select_plan sampleStore (slug samplePage)) = Data picnic \<and>
   claim_fault claimDown = Some ''Failed to fetch'' \<and>
   claims (pollTick claimDown sampleStore samplePage) = []"
proof -
  have a: "failing (plan_fault planDown) (select_plan sampleStore (slug samplePage)) = Error ''Failed to fetch''"
    by code_simp
  have b: "failing (plan_fault respDown) (select_plan sampleStore (slug samplePage)) = Data picnic"
    by code_simp
  have b': "resp_fault respDown = Some ''Failed to fetch''" by code_simp
  have c: "failing (plan_fault claimDown) (select_plan sampleStore (slug samplePage)) = Data picnic"
    by code_simp
  have c': "claim_fault claimDown = Some ''Failed to fetch''" by code_simp
  have r: "responses samplePage = [kate]" by code_simp
  from pollTick_keeps_snapshot_on_plan_error [of planDown sampleStore samplePage "''Failed to fetch''"] a
  have 1: "responses (pollTick planDown sampleStore samplePage) = responses samplePage" by blast
  from pollTick_keeps_snapshot_on_plan_error [of respDown sampleStore samplePage "''Failed to fetch''" picnic] b b'
  have 2: "responses (pollTick respDown sampleStore samplePage) = [] \<and>
      err (pollTick respDown sampleStore samplePage) =
        Some (case claim_fault respDown of None \<Rightarrow> ''Failed to fetch'' | Some m' \<Rightarrow> m')"
    by blast
  have d: "claim_fault respDown = None" by code_simp
  from pollTick_keeps_snapshot_on_plan_error [of claimDown sampleStore samplePage "''Failed to fetch''" picnic] c c'
  have 3: "claims (pollTick claimDown sampleStore samplePage) = []" by blast
  from a b b' c c' r 1 2 3 d show ?thesis by simp
qed

theorem pollTick_blanks_responses_counterexample:
  "samplePage = load True noFaults sampleStore freshPage \<and>
   err samplePage = None \<and>
   responses samplePage = [kate] \<and>
   err (pollTick respDown sampleStore samplePage) = Some ''Failed to fetch'' \<and>
   responses (pollTick respDown sampleStore samplePage) \<noteq> responses samplePage"
  by code_simp

lemma select_plan_upsert [simp]: "select_plan (upsert_response u db) s = select_plan db s"
  by (simp add: select_plan_def upsert_response_def)

lemma distinct_key_filter_le1:
  "distinct (map f xs) \<Longrightarrow> length (filter (\<lambda>x. f x = a) xs) \<le> 1"
proof (induction xs)
  case Nil
  then show ?case by simp
next
  case (Cons x xs)
  show ?case
  proof (cases "f x = a")
    case True
    with Cons.prems have "a \<notin> f ` set xs" by auto
    then have "filter (\<lambda>x. f x = a) xs = []" by (auto simp: filter_empty_conv)
    with True show ?thesis by simp
  next
    case False
    with Cons show ?thesis by simp
  qed
qed

lemma sameKey_filter:
  "filter (sameKey pid k) xs = filter (\<lambda>r. (r_plan_id r, r_user_key r) = (pid, k)) xs"
  by (induction xs) (simp_all add: sameKey_def)

lemma upsert_response_hit:
  assumes "\<exists>r \<in> set (tbl_responses db). sameKey (ru_plan_id u) (ru_user_key u) r"
  shows "tbl_responses (upsert_response u db) =
         map (\<lambda>r. if sameKey (ru_plan_id u) (ru_user_key u) r
                  then r\<lparr>r_user_name := Some (ru_user_name u),
                         r_status := ru_status u, r_arrival := ru_arrival u\<rparr>
                  else r) (tbl_responses db)"
  using assms by (simp add: upsert_response_def)

lemma upsert_response_miss:
  assumes "\<not> (\<exists>r \<in> set (tbl_responses db). sameKey (ru_plan_id u) (ru_user_key u) r)"
  shows "tbl_responses (upsert_response u db) =
         \<lparr>r_id = serial db, r_plan_id = ru_plan_id u, r_user_key = ru_user_key u,
          r_user_name = Some (ru_user_name u), r_status = ru_status u,
          r_arrival = ru_arrival u\<rparr> # tbl_responses db"
  using assms by (simp add: upsert_response_def)

lemma upsert_response_keys:
  "set (map (\<lambda>r. (r_plan_id r, r_user_key r)) (tbl_responses (upsert_response u db))) =
   insert (ru_plan_id u, ru_user_key u)
     (set (map (\<lambda>r. (r_plan_id r, r_user_key r)) (tbl_responses db)))"
proof (cases "\<exists>r \<in> set (tbl_responses db). sameKey (ru_plan_id u) (ru_user_key u) r")
  case True
  have "map (\<lambda>r. (r_plan_id r, r_user_key r)) (tbl_responses (upsert_response u db)) =
        map (\<lambda>r. (r_plan_id r, r_user_key r)) (tbl_responses db)"
    by (simp add: upsert_response_hit[OF True] comp_def if_distrib cong: if_cong)
  moreover from True have "(ru_plan_id u, ru_user_key u) \<in>
      set (map (\<lambda>r. (r_plan_id r, r_user_key r)) (tbl_responses db))"
    by (force simp: sameKey_def)
  ultimately show ?thesis by auto
next
  case False
  then show ?thesis by (simp add: upsert_response_miss)
qed

lemma upsert_response_unique:
  assumes "responses_unique db"
  shows "responses_unique (upsert_response u db)"
proof (cases "\<exists>r \<in> set (tbl_responses db). sameKey (ru_plan_id u) (ru_user_key u) r")
  case True
  have "map (\<lambda>r. (r_plan_id r, r_user_key r)) (tbl_responses (upsert_response u db)) =
        map (\<lambda>r. (r_plan_id r, r_user_key r)) (tbl_responses db)"
    by (simp add: upsert_response_hit[OF True] comp_def if_distrib cong: if_cong)
  with assms show ?thesis by (simp add: responses_unique_def)
next
  case False
  then have "(ru_plan_id u, ru_user_key u) \<notin>
      set (map (\<lambda>r. (r_plan_id r, r_user_key r)) (tbl_responses db))"
    by (auto simp: sameKey_def)
  with assms show ?thesis
    by (simp add: responses_unique_def upsert_response_miss[OF False])
qed

lemma upsert_response_one:
  assumes "responses_unique db"
  shows "length (filter (sameKey (ru_plan_id u) (ru_user_key u))
                  (tbl_responses (upsert_response u db))) = 1"
proof -
  let ?K = "sameKey (ru_plan_id u) (ru_user_key u)"
  let ?t = "tbl_responses (upsert_response u db)"
  from upsert_response_unique[OF assms]
  have "distinct (map (\<lambda>r. (r_plan_id r, r_user_key r)) ?t)"
    by (simp add: responses_unique_def)
  then have "length (filter (\<lambda>r. (r_plan_id r, r_user_key r) = (ru_plan_id u, ru_user_key u)) ?t) \<le> 1"
    by (rule distinct_key_filter_le1)
  then have le: "length (filter ?K ?t) \<le> 1" by (simp only: sameKey_filter)
  have "(ru_plan_id u, ru_user_key u) \<in> set (map (\<lambda>r. (r_plan_id r, r_user_key r)) ?t)"
    by (simp only: upsert_response_keys) simp
  then obtain r where "r \<in> set ?t" "?K r" by (auto simp: sameKey_def)
  then have "r \<in> set (filter ?K ?t)" by simp
  then have "0 < length (filter ?K ?t)" by (rule length_pos_if_in_set)
  with le show ?thesis by linarith
qed

lemma upsert_response_fields:
  assumes "r \<in> set (tbl_responses (upsert_response u db))"
    and "sameKey (ru_plan_id u) (ru_user_key u) r"
  shows "r_user_name r = Some (ru_user_name u) \<and> r_status r = ru_status u \<and>
         r_arrival r = ru_arrival u"
proof (cases "\<exists>r \<in> set (tbl_responses db). sameKey (ru_plan_id u) (ru_user_key u) r")
  case True
  from assms show ?thesis
    by (auto simp add: upsert_response_hit[OF True] sameKey_def split: if_splits)
next
  case False
  from assms False show ?thesis
    by (auto simp add: upsert_response_miss[OF False])
qed

lemma filter_not_map_if:
  assumes "\<And>x. P x \<Longrightarrow> P (g x)"
  shows "filter (\<lambda>x. \<not> P x) (map (\<lambda>x. if P x then g x else x) xs) = filter (\<lambda>x. \<not> P x) xs"
  using assms by (induction xs) auto

lemma upsert_response_others:
  "filter (\<lambda>r. \<not> sameKey (ru_plan_id u) (ru_user_key u) r) (tbl_responses (upsert_response u db))
   = filter (\<lambda>r. \<not> sameKey (ru_plan_id u) (ru_user_key u) r) (tbl_responses db)"
proof (cases "\<exists>r \<in> set (tbl_responses db). sameKey (ru_plan_id u) (ru_user_key u) r")
  case True
  show ?thesis
    unfolding upsert_response_hit[OF True]
    by (rule filter_not_map_if) (simp add: sameKey_def)
next
  case False
  then show ?thesis by (simp add: upsert_response_miss[OF False] sameKey_def)
qed


lemma load_frame [simp]:
  "slug (load sp net db st) = slug st"
  "name (load sp net db st) = name st"
  "userKey (load sp net db st) = userKey st"
  "tw_user_name (load sp net db st) = tw_user_name st"
  by (simp_all add: load_def Let_def split: Result.splits)

lemma load_keeps_plan:
  assumes "plan st = Some p" "select_plan db (slug st) = Data p"
  shows "plan (load False net db st) = Some p"
proof (cases "plan_fault net")
  case None
  with assms(2) have "failing (plan_fault net) (select_plan db (slug st)) = Data p"
    by (simp add: failing_def)
  then show ?thesis by (simp add: load_plan_data)
next
  case (Some m)
  then have "failing (plan_fault net) (select_plan db (slug st)) = Error m"
    by (simp add: failing_def)
  with assms(1) show ?thesis by (simp add: load_plan_error)
qed

lemma load_noFaults:
  assumes "select_plan db (slug st) = Data p"
  shows "load False noFaults db st =
         st\<lparr>err := None, plan := Some p, responses := select_responses db (p_id p),
            claims := select_claims db (p_id p)\<rparr>"
proof -
  from assms have "failing (plan_fault noFaults) (select_plan db (slug st)) = Data p"
    by (simp add: failing_def noFaults_def)
  then show ?thesis by (simp add: load_plan_data) (simp add: noFaults_def)
qed

lemma setRSVP_ok:
  assumes "plan st = Some p" "trim (name st) \<noteq> []"
  shows "setRSVP s None net db st =
    (upsert_response
        \<lparr>ru_plan_id = p_id p, ru_user_key = userKey st, ru_user_name = trim (name st),
         ru_status = s,
         ru_arrival = (case myResponse st of None \<Rightarrow> None | Some r \<Rightarrow> r_arrival r)\<rparr> db,
     load False net
       (upsert_response
        \<lparr>ru_plan_id = p_id p, ru_user_key = userKey st, ru_user_name = trim (name st),
         ru_status = s,
         ru_arrival = (case myResponse st of None \<Rightarrow> None | Some r \<Rightarrow> r_arrival r)\<rparr> db)
       (st\<lparr>err := None, tw_user_name := trim (name st)\<rparr>))"
  using assms by (simp add: setRSVP_def Let_def failing_def myResponse_def)





lemma upsert_response_idem:
  "upsert_response u (upsert_response u db) = upsert_response u db"
proof -
  let ?K = "sameKey (ru_plan_id u) (ru_user_key u)"
  let ?db = "upsert_response u db"
  have "(ru_plan_id u, ru_user_key u) \<in> set (map (\<lambda>r. (r_plan_id r, r_user_key r)) (tbl_responses ?db))"
    by (simp only: upsert_response_keys) simp
  then have ex: "\<exists>r \<in> set (tbl_responses ?db). ?K r" by (auto simp: sameKey_def)
  have "map (\<lambda>r. if ?K r then r\<lparr>r_user_name := Some (ru_user_name u),
                         r_status := ru_status u, r_arrival := ru_arrival u\<rparr> else r)
          (tbl_responses ?db) = tbl_responses ?db"
    by (rule map_idI) (auto dest: upsert_response_fields)
  then have "tbl_responses (upsert_response u ?db) = tbl_responses ?db"
    by (simp only: upsert_response_hit[OF ex])
  moreover have "upsert_response u ?db = ?db\<lparr>tbl_responses := tbl_responses (upsert_response u ?db)\<rparr>"
    using ex by (simp add: upsert_response_def[of u ?db])
  ultimately show ?thesis by simp
qed


lemma find_SomeD: "find P xs = Some x \<Longrightarrow> x \<in> set xs \<and> P x"
  by (induction xs) (auto split: if_splits)

lemma myResponse_after_upsert:
  assumes "plan st = Some p" "responses st = select_responses (upsert_response u db) (p_id p)"
    and "ru_plan_id u = p_id p" "ru_user_key u = userKey st"
  shows "(case myResponse st of None \<Rightarrow> None | Some r \<Rightarrow> r_arrival r) = ru_arrival u"
proof -
  let ?t = "tbl_responses (upsert_response u db)"
  have "(ru_plan_id u, ru_user_key u) \<in> set (map (\<lambda>r. (r_plan_id r, r_user_key r)) ?t)"
    by (simp only: upsert_response_keys) simp
  then obtain r0 where r0: "r0 \<in> set ?t" "r_plan_id r0 = p_id p" "r_user_key r0 = userKey st"
    using assms(3,4) by auto
  then have "r0 \<in> set (responses st)"
    by (simp add: assms(2) select_responses_def)
  with r0(3) have "find (\<lambda>r. r_user_key r = userKey st) (responses st) \<noteq> None"
    by (auto simp: find_None_iff)
  then obtain r where r: "find (\<lambda>r. r_user_key r = userKey st) (responses st) = Some r"
    by auto
  from find_SomeD[OF r] have "r \<in> set ?t" "sameKey (ru_plan_id u) (ru_user_key u) r"
    by (auto simp add: assms(2,3,4) select_responses_def sameKey_def)
  then have "r_arrival r = ru_arrival u"
    by (auto dest: upsert_response_fields)
  with r assms(1) show ?thesis by (simp add: myResponse_def)
qed

text \<open>
  Claim C6.  \<open>setRSVP\<close> is a merge-write keyed by the plan and the participant's key.
  Two successive calls, with any statuses and whatever the refresh after each does, leave
  exactly one response for that key, after the first call and after the second; the row
  carries the status of the later call; the rows of other keys are untouched.  When the
  refresh after the first call succeeds and the two statuses are equal, the second call
  leaves the store as the first one left it.
\<close>

theorem setRSVP_merge_write:
  assumes "plan st = Some p" and "select_plan db (slug st) = Data p"
    and "trim (name st) \<noteq> []"
    and "responses_unique db"
    and "setRSVP s1 None net1 db st = (db1, st1)"
    and "setRSVP s2 None net2 db1 st1 = (db2, st2)"
  shows "length (filter (sameKey (p_id p) (userKey st)) (tbl_responses db1)) = 1 \<and>
         length (filter (sameKey (p_id p) (userKey st)) (tbl_responses db2)) = 1 \<and>
         (\<forall>r \<in> set (tbl_responses db2). sameKey (p_id p) (userKey st) r \<longrightarrow>
            r_status r = s2 \<and> r_user_name r = Some (trim (name st))) \<and>
         filter (\<lambda>r. \<not> sameKey (p_id p) (userKey st) r) (tbl_responses db2) =
           filter (\<lambda>r. \<not> sameKey (p_id p) (userKey st) r) (tbl_responses db) \<and>
         (net1 = noFaults \<and> s1 = s2 \<longrightarrow> db2 = db1)"
proof -
  let ?K = "sameKey (p_id p) (userKey st)"
  let ?u1 = "\<lparr>ru_plan_id = p_id p, ru_user_key = userKey st, ru_user_name = trim (name st),
         ru_status = s1,
         ru_arrival = (case myResponse st of None \<Rightarrow> None | Some r \<Rightarrow> r_arrival r)\<rparr>"
  let ?st' = "st\<lparr>err := None, tw_user_name := trim (name st)\<rparr>"
  from assms(5) have db1: "db1 = upsert_response ?u1 db"
    by (auto simp add: setRSVP_ok[OF assms(1,3)])
  from assms(5) have st1: "st1 = load False net1 db1 ?st'"
    by (auto simp add: setRSVP_ok[OF assms(1,3)])
  have sel1: "select_plan db1 (slug ?st') = Data p"
    using assms(2) by (simp add: db1)
  have plan1: "plan st1 = Some p"
    unfolding st1 by (rule load_keeps_plan[OF _ sel1]) (simp add: assms(1))
  have nm1: "trim (name st1) \<noteq> []" "name st1 = name st" "userKey st1 = userKey st"
    using assms(3) by (simp_all add: st1)
  let ?u2 = "\<lparr>ru_plan_id = p_id p, ru_user_key = userKey st, ru_user_name = trim (name st),
         ru_status = s2,
         ru_arrival = (case myResponse st1 of None \<Rightarrow> None | Some r \<Rightarrow> r_arrival r)\<rparr>"
  from assms(6) have db2: "db2 = upsert_response ?u2 db1"
    by (auto simp add: setRSVP_ok[OF plan1 nm1(1)] nm1)
  have u1: "responses_unique db1"
    unfolding db1 using assms(4) by (rule upsert_response_unique)
  have c1: "length (filter ?K (tbl_responses db1)) = 1"
    using upsert_response_one[OF assms(4), of ?u1] by (simp add: db1)
  have c2: "length (filter ?K (tbl_responses db2)) = 1"
    using upsert_response_one[OF u1, of ?u2] by (simp add: db2)
  have f2: "\<forall>r \<in> set (tbl_responses db2). ?K r \<longrightarrow>
            r_status r = s2 \<and> r_user_name r = Some (trim (name st))"
    using upsert_response_fields[of _ ?u2 db1] by (auto simp add: db2)
  have o2: "filter (\<lambda>r. \<not> ?K r) (tbl_responses db2) = filter (\<lambda>r. \<not> ?K r) (tbl_responses db)"
    using upsert_response_others[of ?u2 db1] upsert_response_others[of ?u1 db]
    by (simp add: db1 db2)
  have idem: "db2 = db1" if "net1 = noFaults" "s1 = s2"
  proof -
    from that(1) sel1 have "responses st1 = select_responses db1 (p_id p)"
      by (simp add: st1 load_noFaults)
    then have "responses st1 = select_responses (upsert_response ?u1 db) (p_id p)"
      by (simp only: db1)
    from myResponse_after_upsert[OF plan1 this]
    have "(case myResponse st1 of None \<Rightarrow> None | Some r \<Rightarrow> r_arrival r) = ru_arrival ?u1"
      by (simp add: nm1)
    with that(2) have "?u2 = ?u1" by simp
    then show ?thesis
      by (simp only: db2 db1 upsert_response_idem)
  qed
  from c1 c2 f2 o2 idem show ?thesis by blast
qed


theorem setRSVP_merge_write_witness:
  "plan samplePage = Some picnic \<and>
   select_plan sampleStore (slug samplePage) = Data picnic \<and>
   trim (name samplePage) \<noteq> [] \<and>
   responses_unique sampleStore \<and>
   tbl_responses (fst (setRSVP Out None respDown sampleStore samplePage)) =
     [kate\<lparr>r_status := Out\<rparr>] \<and>
   length (filter (sameKey (p_id picnic) (userKey samplePage))
     (tbl_responses (fst (setRSVP Maybe None noFaults
        (fst (setRSVP Out None respDown sampleStore samplePage))
        (snd (setRSVP Out None respDown sampleStore samplePage)))))) = 1"
proof -
  have h1: "plan samplePage = Some picnic" by code_simp
  have h2: "select_plan sampleStore (slug samplePage) = Data picnic" by code_simp
  have h3: "trim (name samplePage) \<noteq> []" by code_simp
  have h4: "responses_unique sampleStore" by code_simp
  have v: "tbl_responses (fst (setRSVP Out None respDown sampleStore samplePage)) =
     [kate\<lparr>r_status := Out\<rparr>]" by code_simp
  from setRSVP_merge_write [OF h1 h2 h3 h4 surjective_pairing surjective_pairing,
      where ?s1.0 = Out and ?net1.0 = respDown and ?s2.0 = Maybe and ?net2.0 = noFaults]
  have "length (filter (sameKey (p_id picnic) (userKey samplePage))
     (tbl_responses (fst (setRSVP Maybe None noFaults
        (fst (setRSVP Out None respDown sampleStore samplePage))
        (snd (setRSVP Out None respDown sampleStore samplePage)))))) = 1"
    by blast
  with h1 h2 h3 h4 v show ?thesis by blast
qed

lemma select_plan_update_claim [simp]: "select_plan (update_claim i v db) s = select_plan db s"
  by (simp add: select_plan_def update_claim_def)


lemma claimItem_ok:
  assumes "plan st = Some p" "trim (name st) \<noteq> []"
    and "find (\<lambda>c. c_item c = item) (claims st) = Some e"
  shows "claimItem item None net db st =
    (update_claim (c_id e) (Some (trim (name st))) db,
     load False net (update_claim (c_id e) (Some (trim (name st))) db)
       (st\<lparr>err := None, tw_user_name := trim (name st)\<rparr>))"
  using assms by (simp add: claimItem_def Let_def failing_def)

lemma unclaimItem_refused:
  assumes "plan st = Some p" "find (\<lambda>c. c_item c = item) (claims st) = Some e"
    and "orEmpty (c_claimed_by e) \<noteq> trim (name st)"
  shows "unclaimItem item wfault net db st =
         (db, st\<lparr>err := Some ''Only the person who claimed it can unclaim.''\<rparr>)"
  using assms by (simp add: unclaimItem_def Let_def)

lemma unclaimItem_ok:
  assumes "plan st = Some p" "find (\<lambda>c. c_item c = item) (claims st) = Some e"
    and "orEmpty (c_claimed_by e) = trim (name st)"
  shows "unclaimItem item None net db st =
    (update_claim (c_id e) None db,
     load False net (update_claim (c_id e) None db) (st\<lparr>err := None\<rparr>))"
  using assms by (simp add: unclaimItem_def Let_def failing_def)

lemma distinct_map_eqD:
  "distinct (map f xs) \<Longrightarrow> x \<in> set xs \<Longrightarrow> y \<in> set xs \<Longrightarrow> f x = f y \<Longrightarrow> x = y"
  by (auto simp add: distinct_map dest: inj_onD)

lemma existing_in_store:
  assumes "in_sync db st" "plan st = Some p"
    and "find (\<lambda>c. c_item c = item) (claims st) = Some e"
  shows "e \<in> set (tbl_claims db) \<and> c_plan_id e = p_id p \<and> c_item e = item"
proof -
  from assms(1,2) have "claims st = select_claims db (p_id p)"
    by (simp add: in_sync_def)
  with find_SomeD[OF assms(3)] show ?thesis
    by (simp add: select_claims_def)
qed

lemma update_claim_by_item:
  assumes "claims_unique db" "claim_ids_unique db" "e \<in> set (tbl_claims db)"
  shows "tbl_claims (update_claim (c_id e) v db) =
         map (\<lambda>c. if c_plan_id c = c_plan_id e \<and> c_item c = c_item e
                  then c\<lparr>c_claimed_by := v\<rparr> else c) (tbl_claims db)"
proof -
  have "(c_id c = c_id e) = (c_plan_id c = c_plan_id e \<and> c_item c = c_item e)"
    if "c \<in> set (tbl_claims db)" for c
  proof
    assume "c_id c = c_id e"
    with assms(2,3) that have "c = e"
      unfolding claim_ids_unique_def by (blast intro: distinct_map_eqD)
    then show "c_plan_id c = c_plan_id e \<and> c_item c = c_item e" by simp
  next
    assume "c_plan_id c = c_plan_id e \<and> c_item c = c_item e"
    then have "(c_plan_id c, c_item c) = (c_plan_id e, c_item e)" by simp
    with assms(1,3) that have "c = e"
      unfolding claims_unique_def
      by (blast intro: distinct_map_eqD[where f="\<lambda>c. (c_plan_id c, c_item c)"])
    then show "c_id c = c_id e" by simp
  qed
  then show ?thesis
    by (simp add: update_claim_def cong: map_cong)
qed

lemma find_map_same:
  assumes "\<And>x. P (f x) = P x"
  shows "find P (map f xs) = map_option f (find P xs)"
  using assms by (induction xs) auto

lemma select_claims_update:
  "select_claims (update_claim i v db) pid =
   map (\<lambda>c. if c_id c = i then c\<lparr>c_claimed_by := v\<rparr> else c) (select_claims db pid)"
  by (simp add: select_claims_def update_claim_def filter_map comp_def if_distrib cong: if_cong)

lemma claimItem_snapshot:
  assumes "in_sync db st" "plan st = Some p" "trim (name st) \<noteq> []"
    and "find (\<lambda>c. c_item c = item) (claims st) = Some e"
  shows "find (\<lambda>c. c_item c = item) (claims (snd (claimItem item None noFaults db st))) =
         Some (e\<lparr>c_claimed_by := Some (trim (name st))\<rparr>)"
proof -
  let ?db1 = "update_claim (c_id e) (Some (trim (name st))) db"
  let ?f = "\<lambda>c. if c_id c = c_id e then c\<lparr>c_claimed_by := Some (trim (name st))\<rparr> else c"
  from assms(1,2) have sel: "select_plan db (slug st) = Data p"
    and cl: "claims st = select_claims db (p_id p)"
    by (simp_all add: in_sync_def)
  from sel have "claims (snd (claimItem item None noFaults db st)) = select_claims ?db1 (p_id p)"
    by (simp add: claimItem_ok[OF assms(2,3,4)] load_noFaults)
  also have "\<dots> = map ?f (claims st)"
    by (simp only: select_claims_update cl)
  finally have "find (\<lambda>c. c_item c = item) (claims (snd (claimItem item None noFaults db st)))
      = map_option ?f (find (\<lambda>c. c_item c = item) (claims st))"
    by (simp only:) (rule find_map_same, simp)
  then show ?thesis by (simp add: assms(4))
qed



lemma update_claim_twice:
  "update_claim i w (update_claim i v db) = update_claim i w db"
  by (simp add: update_claim_def comp_def if_distrib cong: if_cong)

lemma orEmpty_Some [simp]: "orEmpty (Some s) = s"
  by (simp add: orEmpty_def)

lemma claim_then_unclaim:
  assumes "in_sync db st" "plan st = Some p" "trim (name st) \<noteq> []"
    and "find (\<lambda>c. c_item c = item) (claims st) = Some e"
  shows "fst (unclaimItem item None net (fst (claimItem item None noFaults db st))
                (snd (claimItem item None noFaults db st))) =
         update_claim (c_id e) None db"
proof -
  let ?n = "trim (name st)"
  let ?db1 = "update_claim (c_id e) (Some ?n) db"
  let ?st1 = "snd (claimItem item None noFaults db st)"
  from assms(1,2) have sel: "select_plan db (slug st) = Data p"
    by (simp add: in_sync_def)
  have db1: "fst (claimItem item None noFaults db st) = ?db1"
    by (simp add: claimItem_ok[OF assms(2,3,4)])
  have st1: "?st1 = load False noFaults ?db1 (st\<lparr>err := None, tw_user_name := ?n\<rparr>)"
    by (simp add: claimItem_ok[OF assms(2,3,4)])
  have plan1: "plan ?st1 = Some p"
    using sel by (simp add: st1 load_noFaults)
  have name1: "trim (name ?st1) = ?n"
    by (simp add: st1)
  have f1: "find (\<lambda>c. c_item c = item) (claims ?st1) = Some (e\<lparr>c_claimed_by := Some ?n\<rparr>)"
    using assms by (rule claimItem_snapshot)
  have "orEmpty (c_claimed_by (e\<lparr>c_claimed_by := Some ?n\<rparr>)) = trim (name ?st1)"
    by (simp add: name1)
  from unclaimItem_ok[OF plan1 f1 this, of net ?db1]
  show ?thesis by (simp add: db1 update_claim_twice)
qed

text \<open>
  Claim C7, as the code has it.  The requester's display name is the trimmed name field,
  and an unclaimed item counts as claimed by the empty name.  \<open>unclaimItem\<close> compares
  the name with \<open>claimed_by\<close> of the item's row in the snapshot of the page, not with
  the value that the store holds.  When they differ it leaves the store and the snapshot
  unchanged and sets the message "Only the person who claimed it can unclaim.", the
  authorization error.  When they are equal it resets \<open>claimed_by\<close> of the stored row
  with the identifier of the snapshot row, whatever that row holds by then.  On a page
  in sync with the store the value compared is the current one, the row reset is the
  item's row and no other row changes, and a claim followed by an unclaim under the same
  name returns the item to unclaimed.  So the claim as stated holds for a snapshot in
  sync; in the last example after the theorem the snapshot is one tick old, and the
  unclaim releases an item that another participant holds.
\<close>

theorem unclaimItem_only_claimant:
  "(plan st = Some p \<and> find (\<lambda>c. c_item c = item) (claims st) = Some e \<and>
    orEmpty (c_claimed_by e) \<noteq> trim (name st) \<longrightarrow>
      unclaimItem item wfault net db st =
        (db, st\<lparr>err := Some ''Only the person who claimed it can unclaim.''\<rparr>)) \<and>
   (plan st = Some p \<and> find (\<lambda>c. c_item c = item) (claims st) = Some e \<and>
    orEmpty (c_claimed_by e) = trim (name st) \<longrightarrow>
      tbl_claims (fst (unclaimItem item None net db st)) =
        map (\<lambda>c. if c_id c = c_id e then c\<lparr>c_claimed_by := None\<rparr> else c) (tbl_claims db)) \<and>
   (in_sync db st \<and> plan st = Some p \<and> claims_unique db \<and> claim_ids_unique db \<and>
    find (\<lambda>c. c_item c = item) (claims st) = Some e \<and>
    orEmpty (c_claimed_by e) = trim (name st) \<longrightarrow>
      tbl_claims (fst (unclaimItem item None net db st)) =
        map (\<lambda>c. if c_plan_id c = p_id p \<and> c_item c = item
                 then c\<lparr>c_claimed_by := None\<rparr> else c) (tbl_claims db)) \<and>
   (in_sync db st \<and> plan st = Some p \<and> claims_unique db \<and> claim_ids_unique db \<and>
    trim (name st) \<noteq> [] \<and> find (\<lambda>c. c_item c = item) (claims st) = Some e \<longrightarrow>
      tbl_claims (fst (unclaimItem item None net (fst (claimItem item None noFaults db st))
                        (snd (claimItem item None noFaults db st)))) =
        map (\<lambda>c. if c_plan_id c = p_id p \<and> c_item c = item
                 then c\<lparr>c_claimed_by := None\<rparr> else c) (tbl_claims db))"
proof (intro conjI impI)
  assume "plan st = Some p \<and> find (\<lambda>c. c_item c = item) (claims st) = Some e \<and>
    orEmpty (c_claimed_by e) = trim (name st)"
  then show "tbl_claims (fst (unclaimItem item None net db st)) =
        map (\<lambda>c. if c_id c = c_id e then c\<lparr>c_claimed_by := None\<rparr> else c) (tbl_claims db)"
    by (simp add: unclaimItem_ok update_claim_def)
next
  assume "plan st = Some p \<and> find (\<lambda>c. c_item c = item) (claims st) = Some e \<and>
    orEmpty (c_claimed_by e) \<noteq> trim (name st)"
  then show "unclaimItem item wfault net db st =
        (db, st\<lparr>err := Some ''Only the person who claimed it can unclaim.''\<rparr>)"
    by (simp add: unclaimItem_refused)
next
  assume h: "in_sync db st \<and> plan st = Some p \<and> claims_unique db \<and> claim_ids_unique db \<and>
    find (\<lambda>c. c_item c = item) (claims st) = Some e \<and>
    orEmpty (c_claimed_by e) = trim (name st)"
  then have e: "e \<in> set (tbl_claims db)" "c_plan_id e = p_id p" "c_item e = item"
    using existing_in_store[of db st p item e] by simp_all
  from h have "fst (unclaimItem item None net db st) = update_claim (c_id e) None db"
    by (simp add: unclaimItem_ok)
  moreover from h e(1) have "tbl_claims (update_claim (c_id e) None db) =
         map (\<lambda>c. if c_plan_id c = c_plan_id e \<and> c_item c = c_item e
                  then c\<lparr>c_claimed_by := None\<rparr> else c) (tbl_claims db)"
    by (simp add: update_claim_by_item)
  ultimately show "tbl_claims (fst (unclaimItem item None net db st)) =
        map (\<lambda>c. if c_plan_id c = p_id p \<and> c_item c = item
                 then c\<lparr>c_claimed_by := None\<rparr> else c) (tbl_claims db)"
    by (simp add: e)
next
  assume h: "in_sync db st \<and> plan st = Some p \<and> claims_unique db \<and> claim_ids_unique db \<and>
    trim (name st) \<noteq> [] \<and> find (\<lambda>c. c_item c = item) (claims st) = Some e"
  then have e: "e \<in> set (tbl_claims db)" "c_plan_id e = p_id p" "c_item e = item"
    using existing_in_store[of db st p item e] by simp_all
  from h have "fst (unclaimItem item None net (fst (claimItem item None noFaults db st))
                (snd (claimItem item None noFaults db st))) = update_claim (c_id e) None db"
    by (simp add: claim_then_unclaim)
  moreover from h e(1) have "tbl_claims (update_claim (c_id e) None db) =
         map (\<lambda>c. if c_plan_id c = c_plan_id e \<and> c_item c = c_item e
                  then c\<lparr>c_claimed_by := None\<rparr> else c) (tbl_claims db)"
    by (simp add: update_claim_by_item)
  ultimately show "tbl_claims (fst (unclaimItem item None net (fst (claimItem item None noFaults db st))
                        (snd (claimItem item None noFaults db st)))) =
        map (\<lambda>c. if c_plan_id c = p_id p \<and> c_item c = item
                 then c\<lparr>c_claimed_by := None\<rparr> else c) (tbl_claims db)"
    by (simp add: e)
qed

theorem unclaimItem_only_claimant_witness:
  "plan samplePage = Some picnic \<and>
   find (\<lambda>c. c_item c = ''Dessert'') (claims samplePage) = Some dessert \<and>
   orEmpty (c_claimed_by dessert) \<noteq> trim (name samplePage) \<and>
   fst (unclaimItem ''Dessert'' None noFaults sampleStore samplePage) = sampleStore \<and>
   err (snd (unclaimItem ''Dessert'' None noFaults sampleStore samplePage)) =
     Some ''Only the person who claimed it can unclaim.'' \<and>
   in_sync sampleStore (samplePage\<lparr>name := ''Bob''\<rparr>) \<and>
   claims_unique sampleStore \<and> claim_ids_unique sampleStore \<and>
   orEmpty (c_claimed_by dessert) = trim (name (samplePage\<lparr>name := ''Bob''\<rparr>)) \<and>
   tbl_claims (fst (unclaimItem ''Dessert'' None noFaults sampleStore (samplePage\<lparr>name := ''Bob''\<rparr>))) =
     [dessert\<lparr>c_claimed_by := None\<rparr>] \<and>
   trim (name samplePage) \<noteq> [] \<and>
   tbl_claims (fst (unclaimItem ''Dessert'' None noFaults
       (fst (claimItem ''Dessert'' None noFaults sampleStore samplePage))
       (snd (claimItem ''Dessert'' None noFaults sampleStore samplePage)))) =
     [dessert\<lparr>c_claimed_by := None\<rparr>]"
proof -
  let ?bob = "samplePage\<lparr>name := ''Bob''\<rparr>"
  have a: "plan samplePage = Some picnic \<and>
    find (\<lambda>c. c_item c = ''Dessert'') (claims samplePage) = Some dessert \<and>
    orEmpty (c_claimed_by dessert) \<noteq> trim (name samplePage)" by code_simp
  have b: "in_sync sampleStore ?bob \<and> plan ?bob = Some picnic \<and>
    claims_unique sampleStore \<and> claim_ids_unique sampleStore \<and>
    find (\<lambda>c. c_item c = ''Dessert'') (claims ?bob) = Some dessert \<and>
    orEmpty (c_claimed_by dessert) = trim (name ?bob)" by code_simp
  have c: "in_sync sampleStore samplePage \<and> plan samplePage = Some picnic \<and>
    claims_unique sampleStore \<and> claim_ids_unique sampleStore \<and>
    trim (name samplePage) \<noteq> [] \<and>
    find (\<lambda>c. c_item c = ''Dessert'') (claims samplePage) = Some dessert" by code_simp
  have v: "tbl_claims sampleStore = [dessert]" "p_id picnic = 1" "c_plan_id dessert = 1"
    "c_item dessert = ''Dessert''"
    by code_simp+
  from unclaimItem_only_claimant [where st = samplePage and p = picnic and item = "''Dessert''"
      and e = dessert and wfault = None and net = noFaults and db = sampleStore] a
  have 1: "unclaimItem ''Dessert'' None noFaults sampleStore samplePage =
        (sampleStore, samplePage\<lparr>err := Some ''Only the person who claimed it can unclaim.''\<rparr>)"
    by blast
  from unclaimItem_only_claimant [where st = ?bob and p = picnic and item = "''Dessert''"
      and e = dessert and net = noFaults and db = sampleStore] b
  have "tbl_claims (fst (unclaimItem ''Dessert'' None noFaults sampleStore ?bob)) =
        map (\<lambda>c. if c_plan_id c = p_id picnic \<and> c_item c = ''Dessert''
                 then c\<lparr>c_claimed_by := None\<rparr> else c) (tbl_claims sampleStore)"
    by blast
  then have 2: "tbl_claims (fst (unclaimItem ''Dessert'' None noFaults sampleStore ?bob)) =
     [dessert\<lparr>c_claimed_by := None\<rparr>]"
    by (simp add: v)
  from unclaimItem_only_claimant [where st = samplePage and p = picnic and item = "''Dessert''"
      and e = dessert and net = noFaults and db = sampleStore] c
  have "tbl_claims (fst (unclaimItem ''Dessert'' None noFaults
       (fst (claimItem ''Dessert'' None noFaults sampleStore samplePage))
       (snd (claimItem ''Dessert'' None noFaults sampleStore samplePage)))) =
        map (\<lambda>c. if c_plan_id c = p_id picnic \<and> c_item c = ''Dessert''
                 then c\<lparr>c_claimed_by := None\<rparr> else c) (tbl_claims sampleStore)"
    by blast
  then have 3: "tbl_claims (fst (unclaimItem ''Dessert'' None noFaults
       (fst (claimItem ''Dessert'' None noFaults sampleStore samplePage))
       (snd (claimItem ''Dessert'' None noFaults sampleStore samplePage)))) =
     [dessert\<lparr>c_claimed_by := None\<rparr>]"
    by (simp add: v)
  from a b c 1 2 3 show ?thesis by simp
qed

theorem unclaimItem_stale_snapshot_counterexample:
  "tbl_claims storeAfterBob = [dessert\<lparr>c_claimed_by := Some ''Bob''\<rparr>] \<and>
   claims kateStalePage = [dessert\<lparr>c_claimed_by := Some ''Kate''\<rparr>] \<and>
   trim (name kateStalePage) = ''Kate'' \<and>
   tbl_claims (fst (unclaimItem ''Dessert'' None noFaults storeAfterBob kateStalePage)) =
     [dessert\<lparr>c_claimed_by := None\<rparr>] \<and>
   err (snd (unclaimItem ''Dessert'' None noFaults storeAfterBob kateStalePage)) = None"
  by code_simp

lemma stampClaims_fields:
  "map c_item (stampClaims n xs) = map ci_item xs"
  "map c_plan_id (stampClaims n xs) = map ci_plan_id xs"
  "map c_claimed_by (stampClaims n xs) = map ci_claimed_by xs"
  "map (\<lambda>c. (c_plan_id c, c_item c)) (stampClaims n xs) = map (\<lambda>x. (ci_plan_id x, ci_item x)) xs"
  by (induction n xs rule: stampClaims.induct) simp_all

lemma select_plan_tbl_claims [simp]:
  "select_plan (db\<lparr>tbl_claims := cs, serial := n\<rparr>) s = select_plan db s"
  by (simp add: select_plan_def)

lemma distinct_DEFAULT: "distinct DEFAULT_POTLUCK_ITEMS"
  by (simp add: DEFAULT_POTLUCK_ITEMS_def)

lemma seedRows_keys:
  "map (\<lambda>x. (ci_plan_id x, ci_item x)) (seedRows pid ms) = map (Pair pid) ms"
  by (simp add: seedRows_def comp_def)

lemma ensure_unfold:
  assumes "plan st = Some p"
  shows "ensurePotluckDefaults wfault net db st =
    (let missing = filter (\<lambda>i. i \<notin> c_item ` set (claims st)) DEFAULT_POTLUCK_ITEMS
     in if missing = [] then (db, st)
        else case failing wfault (insert_claims (seedRows (p_id p) missing) db) of
               Error m \<Rightarrow> (db, load False net db (st\<lparr>err := Some m\<rparr>))
             | Data db' \<Rightarrow> (db', load False net db' st))"
  using assms by (simp add: ensurePotluckDefaults_def Let_def seedRows_def)

lemma insert_claims_ok:
  assumes "claims_unique db" "distinct ms"
    and "\<forall>i \<in> set ms. i \<notin> c_item ` set (select_claims db pid)"
  shows "insert_claims (seedRows pid ms) db =
         Data (db\<lparr>tbl_claims := stampClaims (serial db) (seedRows pid ms) @ tbl_claims db,
                  serial := serial db + length (seedRows pid ms)\<rparr>)"
proof -
  have d1: "distinct (map (Pair pid) ms)"
    using assms(2) by (simp add: distinct_map inj_on_def)
  have d2: "distinct (map (\<lambda>c. (c_plan_id c, c_item c)) (tbl_claims db))"
    using assms(1) by (simp add: claims_unique_def)
  have d3: "set (map (Pair pid) ms) \<inter> set (map (\<lambda>c. (c_plan_id c, c_item c)) (tbl_claims db)) = {}"
    using assms(3) by (auto simp add: select_claims_def)
  from d1 d2 d3 have "distinct (map (\<lambda>x. (ci_plan_id x, ci_item x)) (seedRows pid ms) @
                  map (\<lambda>c. (c_plan_id c, c_item c)) (tbl_claims db))"
    by (simp only: seedRows_keys distinct_append simp_thms)
  then show ?thesis by (simp add: insert_claims_def)
qed

lemma insert_claims_clash:
  assumes "i \<in> set ms" "(pid, i) \<in> set (map (\<lambda>c. (c_plan_id c, c_item c)) (tbl_claims db))"
  shows "\<exists>m. insert_claims (seedRows pid ms) db = Error m"
proof -
  from assms(1) have "(pid, i) \<in> set (map (Pair pid) ms)" by simp
  with assms(2) have "\<not> distinct (map (\<lambda>x. (ci_plan_id x, ci_item x)) (seedRows pid ms) @
                  map (\<lambda>c. (c_plan_id c, c_item c)) (tbl_claims db))"
    by (simp only: seedRows_keys distinct_append) blast
  then show ?thesis by (simp add: insert_claims_def)
qed

lemma ensure_noop_store:
  assumes "plan st = Some p"
    and "\<forall>i \<in> set DEFAULT_POTLUCK_ITEMS.
           (p_id p, i) \<in> set (map (\<lambda>c. (c_plan_id c, c_item c)) (tbl_claims db))"
  shows "fst (ensurePotluckDefaults wfault net db st) = db"
proof -
  let ?ms = "filter (\<lambda>i. i \<notin> c_item ` set (claims st)) DEFAULT_POTLUCK_ITEMS"
  show ?thesis
  proof (cases "?ms = []")
    case True
    then show ?thesis by (simp add: ensure_unfold[OF assms(1)])
  next
    case False
    then obtain i where i: "i \<in> set ?ms" by (cases ?ms) auto
    then have "i \<in> set DEFAULT_POTLUCK_ITEMS" by simp
    with assms(2) have "(p_id p, i) \<in> set (map (\<lambda>c. (c_plan_id c, c_item c)) (tbl_claims db))"
      by blast
    from insert_claims_clash[OF i this] obtain m where
      "insert_claims (seedRows (p_id p) ?ms) db = Error m" by blast
    then have "\<exists>m'. failing wfault (insert_claims (seedRows (p_id p) ?ms) db) = Error m'"
      by (simp add: failing_def split: option.splits)
    then obtain m' where "failing wfault (insert_claims (seedRows (p_id p) ?ms) db) = Error m'"
      by blast
    with False show ?thesis by (simp add: ensure_unfold[OF assms(1)] Let_def)
  qed
qed


lemma potluckEffect_unfold:
  assumes "plan st = Some p" "includes' (toLowerCase (p_type p)) ''potluck''"
  shows "potluckEffect wfault net db st = ensurePotluckDefaults wfault net db st"
  using assms by (simp add: potluckEffect_def)

text \<open>
  Seeding on a page in sync with the store, as at the mount of a page whose plan has
  neither responses nor claims yet.  For a plan whose type contains "potluck" it inserts
  one unclaimed row for exactly the default items that the plan's claims lack, in front
  of the unchanged existing rows; the claims stay unique on (plan, item) and every
  default item is then present.  A second call leaves the store as the first call left
  it.
\<close>

lemma seeding_in_sync:
  assumes "in_sync db st" and "plan st = Some p"
    and "includes' (toLowerCase (p_type p)) ''potluck''"
    and "claims_unique db"
    and "potluckEffect None net1 db st = (db1, st1)"
    and "potluckEffect wfault2 net2 db1 st1 = (db2, st2)"
  shows "tbl_claims db1 =
           stampClaims (serial db)
             (map (\<lambda>item. \<lparr>ci_plan_id = p_id p, ci_item = item, ci_claimed_by = None\<rparr>)
                (filter (\<lambda>i. i \<notin> c_item ` set (select_claims db (p_id p))) DEFAULT_POTLUCK_ITEMS))
           @ tbl_claims db \<and>
         claims_unique db1 \<and>
         set DEFAULT_POTLUCK_ITEMS \<subseteq> c_item ` set (select_claims db1 (p_id p)) \<and>
         db2 = db1 \<and>
         (net1 = noFaults \<longrightarrow> st2 = st1)"
proof -
  let ?pid = "p_id p"
  let ?ms = "filter (\<lambda>i. i \<notin> c_item ` set (select_claims db ?pid)) DEFAULT_POTLUCK_ITEMS"
  let ?new = "stampClaims (serial db) (seedRows ?pid ?ms)"
  let ?dbi = "db\<lparr>tbl_claims := ?new @ tbl_claims db, serial := serial db + length (seedRows ?pid ?ms)\<rparr>"
  from assms(1,2) have sel: "select_plan db (slug st) = Data p"
    and cl: "claims st = select_claims db ?pid"
    by (simp_all add: in_sync_def)
  have ms: "filter (\<lambda>i. i \<notin> c_item ` set (claims st)) DEFAULT_POTLUCK_ITEMS = ?ms"
    by (simp only: cl)
  have ins: "insert_claims (seedRows ?pid ?ms) db = Data ?dbi"
    using assms(4) by (rule insert_claims_ok) (simp_all add: distinct_DEFAULT)
  have first: "ensurePotluckDefaults None net1 db st =
      (if ?ms = [] then (db, st) else (?dbi, load False net1 ?dbi st))"
    by (simp add: ensure_unfold[OF assms(2)] ms ins failing_def Let_def)
  from assms(5) have eq1: "(db1, st1) = (if ?ms = [] then (db, st) else (?dbi, load False net1 ?dbi st))"
    by (simp add: potluckEffect_unfold[OF assms(2,3)] first)
  have tbl1: "tbl_claims db1 = ?new @ tbl_claims db"
    using eq1 by (cases "?ms = []") (simp_all add: seedRows_def)
  have plan1: "plan st1 = Some p"
  proof (cases "?ms = []")
    case True
    with eq1 assms(2) show ?thesis by simp
  next
    case False
    with eq1 have "st1 = load False net1 ?dbi st" by simp
    moreover have "plan (load False net1 ?dbi st) = Some p"
      by (rule load_keeps_plan[OF assms(2)]) (simp add: sel)
    ultimately show ?thesis by simp
  qed
  have keys1: "map (\<lambda>c. (c_plan_id c, c_item c)) (tbl_claims db1) =
      map (Pair ?pid) ?ms @ map (\<lambda>c. (c_plan_id c, c_item c)) (tbl_claims db)"
    by (simp add: tbl1 stampClaims_fields seedRows_keys)
  have u1: "claims_unique db1"
  proof -
    have "distinct (map (\<lambda>x. (ci_plan_id x, ci_item x)) (seedRows ?pid ?ms) @
                  map (\<lambda>c. (c_plan_id c, c_item c)) (tbl_claims db))"
      using ins by (simp add: insert_claims_def split: if_splits)
    then show ?thesis
      by (simp only: claims_unique_def keys1 seedRows_keys)
  qed
  have all: "(?pid, i) \<in> set (map (\<lambda>c. (c_plan_id c, c_item c)) (tbl_claims db1))"
    if "i \<in> set DEFAULT_POTLUCK_ITEMS" for i
  proof (cases "i \<in> c_item ` set (select_claims db ?pid)")
    case True
    then have "(?pid, i) \<in> set (map (\<lambda>c. (c_plan_id c, c_item c)) (tbl_claims db))"
      by (auto simp add: select_claims_def) force
    then show ?thesis by (simp add: keys1)
  next
    case False
    with that have "i \<in> set ?ms" by simp
    then show ?thesis by (simp only: keys1) simp
  qed
  have sub: "set DEFAULT_POTLUCK_ITEMS \<subseteq> c_item ` set (select_claims db1 ?pid)"
  proof
    fix i assume "i \<in> set DEFAULT_POTLUCK_ITEMS"
    from all[OF this] obtain c where "c \<in> set (tbl_claims db1)" "c_plan_id c = ?pid" "c_item c = i"
      by auto
    then show "i \<in> c_item ` set (select_claims db1 ?pid)"
      by (force simp add: select_claims_def)
  qed
  have second: "potluckEffect wfault2 net2 db1 st1 = ensurePotluckDefaults wfault2 net2 db1 st1"
    using plan1 assms(3) by (rule potluckEffect_unfold)
  have "fst (ensurePotluckDefaults wfault2 net2 db1 st1) = db1"
    using plan1 by (rule ensure_noop_store) (use all in blast)
  with assms(6) have db2: "db2 = db1" by (simp add: second)
  have st2: "st2 = st1" if "net1 = noFaults"
  proof -
    have "claims st1 = select_claims db1 ?pid"
    proof (cases "?ms = []")
      case True
      with eq1 cl show ?thesis by simp
    next
      case False
      with eq1 have e: "db1 = ?dbi" "st1 = load False net1 ?dbi st" by simp_all
      have "select_plan ?dbi (slug st) = Data p" by (simp add: sel)
      then show ?thesis
        by (simp only: e that load_noFaults) simp
    qed
    with sub have "filter (\<lambda>i. i \<notin> c_item ` set (claims st1)) DEFAULT_POTLUCK_ITEMS = []"
      by (auto simp add: filter_empty_conv)
    then have "ensurePotluckDefaults wfault2 net2 db1 st1 = (db1, st1)"
      by (simp add: ensure_unfold[OF plan1])
    with assms(6) show ?thesis by (simp add: second)
  qed
  from tbl1 u1 sub db2 st2 show ?thesis by (simp add: seedRows_def)
qed


section \<open>Properties of promoting a candidate\<close>

lemma insert_plan_fresh:
  assumes "pi_slug x \<notin> set (map p_slug (tbl_plans db))"
  shows "insert_plan x db =
     Data (db\<lparr>tbl_plans :=
                 \<lparr>p_id = serial db, p_slug = pi_slug x, p_request_id = Some (pi_request_id x),
                  p_title = pi_title x, p_type = pi_type x, p_note = pi_note x,
                  p_start_ts = pi_start_ts x, p_end_ts = pi_end_ts x,
                  p_location = None\<rparr> # tbl_plans db,
               serial := Suc (serial db)\<rparr>)"
  using assms by (simp add: insert_plan_def)

lemma select_plan_new:
  assumes "p_slug q \<notin> set (map p_slug ps)"
  shows "select_plan (db\<lparr>tbl_plans := q # ps, serial := n\<rparr>) (p_slug q) = Data q"
proof -
  have "p_slug x \<noteq> p_slug q" if "x \<in> set ps" for x
    using that assms by (metis image_eqI set_map)
  then have "filter (\<lambda>p. p_slug p = p_slug q) ps = []"
    by (simp add: filter_empty_conv)
  then show ?thesis by (simp add: select_plan_def)
qed

text \<open>
  Claim C5.  Promoting a candidate returned by \<open>overlaps\<close>, with a slug that no stored
  plan has, creates one new plan: its title, type and note are those of the request, its
  start and end are those of the candidate (and the start is before the end), its slug is
  the generated one, under which the plan page then finds it.  Nothing else in the store
  changes, and the page navigates to the new plan.
\<close>

theorem createPlanFromOverlap_copies_request:
  assumes "req st = Some r" and "c \<in> set (overlaps (rq_rows st))"
    and "planSlug \<notin> set (map p_slug (tbl_plans db))"
    and "createPlanFromOverlap (start c) (end' c) planSlug None db st = (db', st')"
  shows "tbl_plans db' =
           \<lparr>p_id = serial db, p_slug = planSlug, p_request_id = Some (h_id r),
            p_title = h_title r, p_type = h_type r, p_note = h_note r,
            p_start_ts = start c, p_end_ts = end' c, p_location = None\<rparr> # tbl_plans db \<and>
         select_plan db' planSlug =
           Data \<lparr>p_id = serial db, p_slug = planSlug, p_request_id = Some (h_id r),
                 p_title = h_title r, p_type = h_type r, p_note = h_note r,
                 p_start_ts = start c, p_end_ts = end' c, p_location = None\<rparr> \<and>
         start c < end' c \<and>
         router_path st' = Some (''/p/'' @ planSlug) \<and>
         tbl_responses db' = tbl_responses db \<and> tbl_claims db' = tbl_claims db"
proof -
  let ?x = "\<lparr>pi_slug = planSlug, pi_request_id = h_id r, pi_title = h_title r,
             pi_type = h_type r, pi_note = h_note r,
             pi_start_ts = start c, pi_end_ts = end' c\<rparr>"
  let ?q = "\<lparr>p_id = serial db, p_slug = planSlug, p_request_id = Some (h_id r),
            p_title = h_title r, p_type = h_type r, p_note = h_note r,
            p_start_ts = start c, p_end_ts = end' c, p_location = None\<rparr>"
  have "insert_plan ?x db = Data (db\<lparr>tbl_plans := ?q # tbl_plans db, serial := Suc (serial db)\<rparr>)"
    using insert_plan_fresh[of ?x db] assms(3) by simp
  with assms(1,4) have db': "db' = db\<lparr>tbl_plans := ?q # tbl_plans db, serial := Suc (serial db)\<rparr>"
    and st': "st' = st\<lparr>router_path := Some (''/p/'' @ planSlug)\<rparr>"
    by (auto simp add: createPlanFromOverlap_def failing_def)
  have sel: "select_plan db' planSlug = Data ?q"
    using select_plan_new[where q = ?q and ps = "tbl_plans db" and db = db and n = "Suc (serial db)"] assms(3)
    by (simp add: db')
  from assms(2) have "c \<in> set (allPairs (map toWindow (rq_rows st)))"
    using overlaps_subset by blast
  from allPairs_props[OF this] have lt: "start c < end' c" by simp
  from db' st' sel lt show ?thesis by simp
qed

theorem createPlanFromOverlap_copies_request_witness:
  "req requestPage = Some picnicRequest \<and>
   \<lparr>start = 37800000, end' = 39600000, minutes = 30\<rparr> \<in> set (overlaps (rq_rows requestPage)) \<and>
   ''xK3_9aQpLm'' \<notin> set (map p_slug (tbl_plans sampleStore)) \<and>
   tbl_plans (fst (createPlanFromOverlap 37800000 39600000 ''xK3_9aQpLm'' None sampleStore requestPage)) =
     [\<lparr>p_id = 4, p_slug = ''xK3_9aQpLm'', p_request_id = Some 0,
       p_title = ''Picnic'', p_type = ''Potluck'', p_note = Some ''Bring a blanket'',
       p_start_ts = 37800000, p_end_ts = 39600000, p_location = None\<rparr>, picnic]"
proof -
  let ?c = "\<lparr>start = 37800000, end' = 39600000, minutes = 30\<rparr> :: Overlap"
  have h1: "req requestPage = Some picnicRequest" by code_simp
  have h2: "?c \<in> set (overlaps (rq_rows requestPage))" by code_simp
  have h3: "''xK3_9aQpLm'' \<notin> set (map p_slug (tbl_plans sampleStore))" by code_simp
  have v: "serial sampleStore = 4" "tbl_plans sampleStore = [picnic]" "h_id picnicRequest = 0"
    "h_title picnicRequest = ''Picnic''" "h_type picnicRequest = ''Potluck''"
    "h_note picnicRequest = Some ''Bring a blanket''"
    by code_simp+
  from createPlanFromOverlap_copies_request [OF h1 h2 h3 surjective_pairing]
  have "tbl_plans (fst (createPlanFromOverlap (start ?c) (end' ?c) ''xK3_9aQpLm'' None sampleStore requestPage)) =
           \<lparr>p_id = serial sampleStore, p_slug = ''xK3_9aQpLm'', p_request_id = Some (h_id picnicRequest),
            p_title = h_title picnicRequest, p_type = h_type picnicRequest, p_note = h_note picnicRequest,
            p_start_ts = start ?c, p_end_ts = end' ?c, p_location = None\<rparr> # tbl_plans sampleStore"
    by blast
  then have "tbl_plans (fst (createPlanFromOverlap 37800000 39600000 ''xK3_9aQpLm'' None sampleStore requestPage)) =
     [\<lparr>p_id = 4, p_slug = ''xK3_9aQpLm'', p_request_id = Some 0,
       p_title = ''Picnic'', p_type = ''Potluck'', p_note = Some ''Bring a blanket'',
       p_start_ts = 37800000, p_end_ts = 39600000, p_location = None\<rparr>, picnic]"
    by (simp add: v)
  with h1 h2 h3 show ?thesis by blast
qed

end
